theory Spec2Isabelle
  imports Complex_Main "HOL-Library.Word"
begin

section \<open>Numeric types of the program\<close>

text \<open>
  The image processor of halfshell works on \<^verbatim>\<open>uint64\<close> pixel counts and on
  \<^verbatim>\<open>float64\<close> ratios. A \<^verbatim>\<open>uint64\<close> is a 64-bit word. A \<^verbatim>\<open>float64\<close> is an IEEE 754
  binary64 number, modelled by its value: a finite number, one of the two infinities, or
  NaN. Every arithmetic operation and every conversion from an integer rounds its exact
  result to the nearest binary64 number, ties to the one with an even significand, as Go
  does.
\<close>

type_synonym uint64 = "64 word"

subsection \<open>Rounding to binary64\<close>

text \<open>The nearest integer, a tie going to the even one.\<close>

definition round_half_even :: "rat \<Rightarrow> int" where
  "round_half_even y =
     (let f = \<lfloor>y\<rfloor>; d = y - of_int f in
      if d < 1 / 2 then f else if 1 / 2 < d then f + 1 else if even f then f else f + 1)"

text \<open>The exponent \<open>e\<close> with \<open>2\<^sup>e \<le> a < 2\<^sup>e\<^sup>+\<^sup>1\<close> of a positive number (0 otherwise).\<close>

function ilog2 :: "rat \<Rightarrow> int" where
  "ilog2 a =
     (if a \<le> 0 then 0
      else if 2 \<le> a then ilog2 (a / 2) + 1
      else if a < 1 then ilog2 (a * 2) - 1
      else 0)"
  by pat_completeness auto
termination
proof (relation "measure (\<lambda>a. nat (2 * \<lceil>1 / a\<rceil> + \<lfloor>a\<rfloor>))", goal_cases)
  case 1
  show ?case by simp
next
  case (2 a)
  then have a: "2 \<le> a" by simp
  have c1: "\<lceil>1 / a\<rceil> = 1" using a by (simp add: ceiling_eq_iff)
  have c2: "\<lceil>1 / (a / 2)\<rceil> = 1" using a by (simp add: ceiling_eq_iff)
  have "a / 2 < of_int \<lfloor>a\<rfloor>"
  proof -
    have "a - 1 < of_int \<lfloor>a\<rfloor>" by linarith
    moreover have "a / 2 \<le> a - 1" using a by simp
    ultimately show ?thesis by linarith
  qed
  then have fl: "\<lfloor>a / 2\<rfloor> < \<lfloor>a\<rfloor>" by (simp add: floor_less_iff)
  have nn: "0 \<le> \<lfloor>a / 2\<rfloor>" using a by simp
  have "nat (2 * \<lceil>1 / (a / 2)\<rceil> + \<lfloor>a / 2\<rfloor>) < nat (2 * \<lceil>1 / a\<rceil> + \<lfloor>a\<rfloor>)"
    unfolding c1 c2 using fl nn by linarith
  then show ?case by (simp only: in_measure)
next
  case (3 a)
  then have a: "0 < a" "a < 1" by simp_all
  define x where "x = 1 / a"
  have x: "1 < x" using a by (simp add: x_def)
  have fa: "\<lfloor>a\<rfloor> = 0" using a by (simp add: floor_eq_iff)
  have half: "1 / (a * 2) = x / 2" by (simp add: x_def)
  have cx: "2 \<le> \<lceil>x\<rceil>" using x by (simp add: le_ceiling_iff)
  show ?case
  proof (cases "x \<le> 2")
    case True
    then have "\<lceil>x\<rceil> = 2" using x by (simp add: ceiling_eq_iff)
    moreover have "\<lceil>x / 2\<rceil> = 1" using x True by (simp add: ceiling_eq_iff)
    moreover have "1 \<le> a * 2" using True a by (simp add: x_def field_simps)
    then have "\<lfloor>a * 2\<rfloor> = 1" using a by (simp add: floor_eq_iff)
    ultimately have "nat (2 * \<lceil>x / 2\<rceil> + \<lfloor>a * 2\<rfloor>) < nat (2 * \<lceil>x\<rceil> + \<lfloor>a\<rfloor>)"
      by (simp add: fa)
    then show ?thesis by (simp only: in_measure half x_def)
  next
    case False
    then have "a * 2 < 1" using a by (simp add: x_def field_simps)
    then have f2: "\<lfloor>a * 2\<rfloor> = 0" using a by (simp add: floor_eq_iff)
    have "x / 2 \<le> x - 1" using False by simp
    moreover have "x - 1 \<le> of_int (\<lceil>x\<rceil> - 1)" by (simp add: le_of_int_ceiling)
    ultimately have "x / 2 \<le> of_int (\<lceil>x\<rceil> - 1)" by linarith
    then have "\<lceil>x / 2\<rceil> \<le> \<lceil>x\<rceil> - 1" by (simp only: ceiling_le_iff)
    moreover have "0 < \<lceil>x / 2\<rceil>" using x by simp
    ultimately have "nat (2 * \<lceil>x / 2\<rceil> + \<lfloor>a * 2\<rfloor>) < nat (2 * \<lceil>x\<rceil> + \<lfloor>a\<rfloor>)"
      unfolding fa f2 by linarith
    then show ?thesis by (simp only: in_measure half x_def)
  qed
qed

declare ilog2.simps [simp del]

text \<open>
  A binary64 number has 53 significant bits and an exponent of at least \<open>-1022\<close>: around
  \<open>q\<close> the representable numbers are the multiples of \<open>ulp q\<close>, below \<open>2\<^sup>-\<^sup>1\<^sup>0\<^sup>2\<^sup>2\<close> the
  subnormal numbers, multiples of \<open>2\<^sup>-\<^sup>1\<^sup>0\<^sup>7\<^sup>4\<close>. \<open>round_rat q\<close> is the multiple nearest to
  \<open>q\<close>; a result of magnitude \<open>2\<^sup>1\<^sup>0\<^sup>2\<^sup>4\<close> or more overflows to an infinity.
\<close>

definition expo :: "rat \<Rightarrow> int" where
  "expo q = max (ilog2 \<bar>q\<bar>) (- 1022)"

definition ulp :: "rat \<Rightarrow> rat" where
  "ulp q = 2 powi (expo q - 52)"

definition round_rat :: "rat \<Rightarrow> rat" where
  "round_rat q = of_int (round_half_even (q / ulp q)) * ulp q"

datatype float64 = Fin rat | PInf | NInf | NaN

definition f64_round :: "rat \<Rightarrow> float64" where
  "f64_round q =
     (let r = round_rat q in
      if 2 ^ 1024 \<le> r then PInf else if r \<le> - (2 ^ 1024) then NInf else Fin r)"

subsection \<open>Operations on floats\<close>

text \<open>
  Division by zero, the infinities and NaN behave as IEEE 754 and Go prescribe. The sign
  of zero is not modelled: every divisor the program forms is a converted unsigned integer
  or a quotient of two of them, so never a negative zero.
\<close>

fun f64_div :: "float64 \<Rightarrow> float64 \<Rightarrow> float64" where
  "f64_div (Fin a) (Fin b) =
     (if b = 0 then (if a = 0 then NaN else if 0 < a then PInf else NInf)
      else f64_round (a / b))"
| "f64_div (Fin a) PInf = Fin 0"
| "f64_div (Fin a) NInf = Fin 0"
| "f64_div PInf (Fin b) = (if 0 \<le> b then PInf else NInf)"
| "f64_div NInf (Fin b) = (if 0 \<le> b then NInf else PInf)"
| "f64_div _ _ = NaN"

fun f64_mul :: "float64 \<Rightarrow> float64 \<Rightarrow> float64" where
  "f64_mul (Fin a) (Fin b) = f64_round (a * b)"
| "f64_mul (Fin a) PInf = (if a = 0 then NaN else if 0 < a then PInf else NInf)"
| "f64_mul (Fin a) NInf = (if a = 0 then NaN else if 0 < a then NInf else PInf)"
| "f64_mul PInf (Fin b) = (if b = 0 then NaN else if 0 < b then PInf else NInf)"
| "f64_mul NInf (Fin b) = (if b = 0 then NaN else if 0 < b then NInf else PInf)"
| "f64_mul PInf PInf = PInf"
| "f64_mul PInf NInf = NInf"
| "f64_mul NInf PInf = NInf"
| "f64_mul NInf NInf = PInf"
| "f64_mul _ _ = NaN"

fun f64_add :: "float64 \<Rightarrow> float64 \<Rightarrow> float64" where
  "f64_add (Fin a) (Fin b) = f64_round (a + b)"
| "f64_add NaN _ = NaN"
| "f64_add _ NaN = NaN"
| "f64_add PInf NInf = NaN"
| "f64_add NInf PInf = NaN"
| "f64_add PInf _ = PInf"
| "f64_add _ PInf = PInf"
| "f64_add NInf _ = NInf"
| "f64_add _ NInf = NInf"

text \<open>Go's \<^verbatim>\<open>a < b\<close> and \<^verbatim>\<open>a > b\<close> on floats: false as soon as one side is NaN.\<close>

fun f64_lt :: "float64 \<Rightarrow> float64 \<Rightarrow> bool" where
  "f64_lt (Fin a) (Fin b) = (a < b)"
| "f64_lt (Fin a) PInf = True"
| "f64_lt NInf (Fin b) = True"
| "f64_lt NInf PInf = True"
| "f64_lt _ _ = False"

definition f64_gt :: "float64 \<Rightarrow> float64 \<Rightarrow> bool" where
  "f64_gt a b = f64_lt b a"

text \<open>Go's \<^verbatim>\<open>a == b\<close>; \<^verbatim>\<open>a != b\<close> is its negation, so NaN differs from every value.\<close>

fun f64_eq :: "float64 \<Rightarrow> float64 \<Rightarrow> bool" where
  "f64_eq (Fin a) (Fin b) = (a = b)"
| "f64_eq PInf PInf = True"
| "f64_eq NInf NInf = True"
| "f64_eq _ _ = False"

text \<open>\<^verbatim>\<open>math.Floor\<close>: the infinities and NaN are returned as they are.\<close>

fun math_Floor :: "float64 \<Rightarrow> float64" where
  "math_Floor (Fin a) = Fin (of_int \<lfloor>a\<rfloor>)"
| "math_Floor x = x"

text \<open>
  The conversion \<^verbatim>\<open>float64(n)\<close> of an unsigned integer: exact below \<open>2\<^sup>5\<^sup>3\<close>, rounded
  above.
\<close>

definition float64_of_uint64 :: "uint64 \<Rightarrow> float64" where
  "float64_of_uint64 n = f64_round (of_nat (unat n))"

text \<open>
  Go's \<^verbatim>\<open>int\<close> and \<^verbatim>\<open>uint\<close> are taken to be 64 bits wide (a 64-bit platform); an
  \<^verbatim>\<open>int\<close> is a word read as two's complement (\<open>sint\<close>), and the conversion
  \<^verbatim>\<open>uint(n)\<close> of a \<^verbatim>\<open>uint64\<close> is the identity.

  The conversions \<^verbatim>\<open>uint64(x)\<close> and \<^verbatim>\<open>int(x)\<close> of a float truncate towards zero.
  When the truncated value does not fit the target type, or \<open>x\<close> is infinite or NaN, the
  Go specification leaves the result to the implementation: the model takes it from a
  \<open>platform\<close>, about which nothing is assumed.
\<close>

type_synonym go_int = "64 word"

record platform =
  uint64_unrepresentable :: "float64 \<Rightarrow> uint64"
  int_unrepresentable :: "float64 \<Rightarrow> go_int"

definition trunc_to_zero :: "rat \<Rightarrow> int" where
  "trunc_to_zero q = (if 0 \<le> q then \<lfloor>q\<rfloor> else \<lceil>q\<rceil>)"

definition uint64_of_float64 :: "platform \<Rightarrow> float64 \<Rightarrow> uint64" where
  "uint64_of_float64 pf x =
     (case x of
        Fin q \<Rightarrow>
          if 0 \<le> trunc_to_zero q \<and> trunc_to_zero q < 2 ^ 64 then word_of_int (trunc_to_zero q)
          else uint64_unrepresentable pf x
      | _ \<Rightarrow> uint64_unrepresentable pf x)"

definition int_of_float64 :: "platform \<Rightarrow> float64 \<Rightarrow> go_int" where
  "int_of_float64 pf x =
     (case x of
        Fin q \<Rightarrow>
          if - (2 ^ 63) \<le> trunc_to_zero q \<and> trunc_to_zero q < 2 ^ 63
          then word_of_int (trunc_to_zero q)
          else int_unrepresentable pf x
      | _ \<Rightarrow> int_unrepresentable pf x)"

section \<open>Image dimensions and processor configuration\<close>

record ImageDimensions =
  Width :: uint64
  Height :: uint64

text \<open>
  Modelled from the spec: the method \<^verbatim>\<open>AspectRatio\<close> of \<^verbatim>\<open>ImageDimensions\<close> is called by
  the processor but declared in a file that is not among the sources. The spec gives it as
  \<^verbatim>\<open>aspectRatio = width / height\<close> (undefined or infinite when the height is 0), a float.
\<close>

definition AspectRatio :: "ImageDimensions \<Rightarrow> float64" where
  "AspectRatio d = f64_div (float64_of_uint64 (Width d)) (float64_of_uint64 (Height d))"

text \<open>
  The fields of \<^verbatim>\<open>ProcessorConfig\<close> that the processor reads. The maxima and defaults are
  compared with and assigned to \<^verbatim>\<open>uint64\<close> dimensions, so they are \<^verbatim>\<open>uint64\<close> as well.
\<close>

record ProcessorConfig =
  ImageCompressionQuality :: uint64
  MaintainAspectRatio :: bool
  DefaultImageWidth :: uint64
  DefaultImageHeight :: uint64
  MaxImageWidth :: uint64
  MaxImageHeight :: uint64
  MaxBlurRadiusPercentage :: float64
  GrayscaleByDefault :: bool
  GrayscaleDisabled :: bool

section \<open>The dimension engine\<close>

definition getAspectScaledHeight :: "platform \<Rightarrow> float64 \<Rightarrow> uint64 \<Rightarrow> uint64" where
  "getAspectScaledHeight pf aspectRatio width =
     uint64_of_float64 pf
       (math_Floor (f64_add (f64_div (float64_of_uint64 width) aspectRatio) (Fin (1 / 2))))"

definition getAspectScaledWidth :: "platform \<Rightarrow> float64 \<Rightarrow> uint64 \<Rightarrow> uint64" where
  "getAspectScaledWidth pf aspectRatio height =
     uint64_of_float64 pf
       (math_Floor (f64_add (f64_mul (float64_of_uint64 height) aspectRatio) (Fin (1 / 2))))"

text \<open>
  \<^verbatim>\<open>scaleToRequestedDimensions\<close> and \<^verbatim>\<open>clampDimensionsToMaxima\<close> also receive the request,
  which they only hand on to their recursive calls; the model leaves that argument out.
  The receiver \<^verbatim>\<open>ip\<close> is read for its configuration only (logging is not modelled).
\<close>

function scaleToRequestedDimensions ::
  "platform \<Rightarrow> ProcessorConfig \<Rightarrow> ImageDimensions \<Rightarrow> ImageDimensions \<Rightarrow> ImageDimensions" where
  "scaleToRequestedDimensions pf cfg currentDimensions requestedDimensions =
     (let imageAspectRatio = AspectRatio currentDimensions in
      if 0 < Width requestedDimensions \<and> 0 < Height requestedDimensions then
        (let requestedAspectRatio = AspectRatio requestedDimensions in
         if \<not> MaintainAspectRatio cfg then requestedDimensions
         else if f64_gt requestedAspectRatio imageAspectRatio then
           scaleToRequestedDimensions pf cfg currentDimensions
             \<lparr>Width = 0, Height = Height requestedDimensions\<rparr>
         else if f64_lt requestedAspectRatio imageAspectRatio then
           scaleToRequestedDimensions pf cfg currentDimensions
             \<lparr>Width = Width requestedDimensions, Height = 0\<rparr>
         else requestedDimensions)
      else if 0 < Width requestedDimensions then
        \<lparr>Width = Width requestedDimensions,
         Height = getAspectScaledHeight pf imageAspectRatio (Width requestedDimensions)\<rparr>
      else if 0 < Height requestedDimensions then
        \<lparr>Width = getAspectScaledWidth pf imageAspectRatio (Height requestedDimensions),
         Height = Height requestedDimensions\<rparr>
      else currentDimensions)"
  by pat_completeness auto
termination
  by (relation "measure (\<lambda>(pf, cfg, cur, req).
        if 0 < Width req \<and> 0 < Height req then 1 else 0)") auto

declare scaleToRequestedDimensions.simps [simp del]


text \<open>
  \<^verbatim>\<open>clampDimensionsToMaxima\<close> calls itself until neither maximum is exceeded. With the
  rounding of \<^verbatim>\<open>float64\<close> a clamp to one maximum can exceed the other again, and for
  some sizes above \<open>2\<^sup>5\<^sup>3\<close> the recursion never ends (the Go runtime then aborts the
  program when the stack is exhausted): the result is an option, \<open>None\<close> when the call
  does not return.
\<close>

partial_function (option) clampDimensionsToMaxima ::
  "platform \<Rightarrow> ProcessorConfig \<Rightarrow> ImageDimensions \<Rightarrow> ImageDimensions option" where
  "clampDimensionsToMaxima pf cfg dimensions =
     (if 0 < MaxImageWidth cfg \<and> MaxImageWidth cfg < Width dimensions then
        (let scaledHeight =
               getAspectScaledHeight pf (AspectRatio dimensions) (MaxImageWidth cfg) in
         clampDimensionsToMaxima pf cfg
           \<lparr>Width = MaxImageWidth cfg, Height = scaledHeight\<rparr>)
      else if 0 < MaxImageHeight cfg \<and> MaxImageHeight cfg < Height dimensions then
        (let scaledWidth =
               getAspectScaledWidth pf (AspectRatio dimensions) (MaxImageHeight cfg) in
         clampDimensionsToMaxima pf cfg
           \<lparr>Width = scaledWidth, Height = MaxImageHeight cfg\<rparr>)
      else Some dimensions)"

section \<open>Processing options\<close>

record ImageProcessorCropOption =
  X :: float64
  Y :: float64

text \<open>The pointer \<^verbatim>\<open>Crop\<close> is an option: \<open>None\<close> is Go's \<^verbatim>\<open>nil\<close>.\<close>

record ImageProcessorOptions =
  Dimensions :: ImageDimensions
  BlurRadius :: float64
  GrayScale :: bool
  Crop :: "ImageProcessorCropOption option"

text \<open>\<open>None\<close>: the call does not return, because the clamping does not.\<close>

definition getScaledDimensions ::
  "platform \<Rightarrow> ProcessorConfig \<Rightarrow> ImageDimensions \<Rightarrow> ImageProcessorOptions
     \<Rightarrow> ImageDimensions option" where
  "getScaledDimensions pf cfg currentDimensions request =
     (let requestDimensions =
            (if Width (Dimensions request) = 0 \<and> Height (Dimensions request) = 0
             then \<lparr>Width = DefaultImageWidth cfg, Height = DefaultImageHeight cfg\<rparr>
             else Dimensions request);
          dimensions = scaleToRequestedDimensions pf cfg currentDimensions requestDimensions
      in clampDimensionsToMaxima pf cfg dimensions)"

section \<open>The external image library\<close>

text \<open>
  The ImageMagick binding is outside the program. A wand is a value of an arbitrary type
  \<open>'w\<close>; each method the processor calls is a field of the record below, taking the
  wand and returning the wand as the call leaves it, with the error (\<open>None\<close> is Go's
  \<^verbatim>\<open>nil\<close>) for the methods that return one. \<^verbatim>\<open>strings.ToLower\<close> is a library
  function too. Nothing is assumed about any of them.
\<close>

type_synonym byte = "8 word"
type_synonym go_error = string

datatype FilterType = FILTER_LANCZOS
datatype PixelInterpolateMethod = INTERPOLATE_PIXEL_BICUBIC
datatype InterlaceType = INTERLACE_PLANE
datatype CompressionType = COMPRESSION_JPEG
datatype ColorspaceType = COLORSPACE_GRAY

record 'w imagick =
  NewMagickWand :: "'w"
  ReadImageBlob :: "'w \<Rightarrow> byte list \<Rightarrow> go_error option \<times> 'w"
  GetImageWidth :: "'w \<Rightarrow> uint64"
  GetImageHeight :: "'w \<Rightarrow> uint64"
  GetImageFormat :: "'w \<Rightarrow> string"
  GetImageBlob :: "'w \<Rightarrow> byte list"
  CropImage :: "'w \<Rightarrow> uint64 \<Rightarrow> uint64 \<Rightarrow> go_int \<Rightarrow> go_int \<Rightarrow> go_error option \<times> 'w"
  ResizeImage :: "'w \<Rightarrow> uint64 \<Rightarrow> uint64 \<Rightarrow> FilterType \<Rightarrow> float64 \<Rightarrow> go_error option \<times> 'w"
  SetImageInterpolateMethod :: "'w \<Rightarrow> PixelInterpolateMethod \<Rightarrow> go_error option \<times> 'w"
  StripImage :: "'w \<Rightarrow> go_error option \<times> 'w"
  SetImageInterlaceScheme :: "'w \<Rightarrow> InterlaceType \<Rightarrow> go_error option \<times> 'w"
  SetImageCompression :: "'w \<Rightarrow> CompressionType \<Rightarrow> go_error option \<times> 'w"
  SetImageCompressionQuality :: "'w \<Rightarrow> uint64 \<Rightarrow> go_error option \<times> 'w"
  GaussianBlurImage :: "'w \<Rightarrow> float64 \<Rightarrow> float64 \<Rightarrow> go_error option \<times> 'w"
  TransformImageColorspace :: "'w \<Rightarrow> ColorspaceType \<Rightarrow> go_error option \<times> 'w"
  strings_ToLower :: "string \<Rightarrow> string"

section \<open>The transform pipeline\<close>

text \<open>
  Each stage returns the error, whether it modified the image, and the wand (which the Go
  code mutates in place). Log messages are not modelled.
\<close>

type_synonym 'w stage_result = "go_error option \<times> bool \<times> 'w"

text \<open>
  The four arguments \<^verbatim>\<open>cropWand\<close> computes for \<^verbatim>\<open>CropImage\<close>: width, height, left and
  top offset. \<^verbatim>\<open>cropLeft\<close> and \<^verbatim>\<open>cropTop\<close> are declared without a value, so the one
  that is not assigned is 0. The subtraction is a \<^verbatim>\<open>uint64\<close> subtraction and wraps.
\<close>

definition cropWand_rectangle ::
  "platform \<Rightarrow> ImageDimensions \<Rightarrow> ImageProcessorOptions \<Rightarrow> ImageProcessorCropOption
     \<Rightarrow> uint64 \<times> uint64 \<times> go_int \<times> go_int" where
  "cropWand_rectangle pf currentDimensions request crop =
     (if f64_gt (AspectRatio currentDimensions) (AspectRatio (Dimensions request)) then
        (let cropWidth = getAspectScaledWidth pf (AspectRatio (Dimensions request))
                           (Height currentDimensions);
             cropHeight = Height currentDimensions;
             cropLeft = int_of_float64 pf (math_Floor (f64_add (Fin (1 / 2))
                          (f64_mul (float64_of_uint64 (Width currentDimensions - cropWidth))
                                   (X crop))))
         in (cropWidth, cropHeight, cropLeft, 0))
      else
        (let cropWidth = Width currentDimensions;
             cropHeight = getAspectScaledHeight pf (AspectRatio (Dimensions request))
                            (Width currentDimensions);
             cropTop = int_of_float64 pf (math_Floor (f64_add (Fin (1 / 2))
                         (f64_mul (float64_of_uint64 (Height currentDimensions - cropHeight))
                                  (Y crop))))
         in (cropWidth, cropHeight, 0, cropTop)))"

definition cropWand ::
  "platform \<Rightarrow> 'w imagick \<Rightarrow> 'w \<Rightarrow> ImageProcessorOptions \<Rightarrow> 'w stage_result" where
  "cropWand pf lib wand request =
     (case Crop request of
        None \<Rightarrow> (None, False, wand)
      | Some crop \<Rightarrow>
          (let currentDimensions =
                 \<lparr>Width = GetImageWidth lib wand, Height = GetImageHeight lib wand\<rparr>
           in case cropWand_rectangle pf currentDimensions request crop of
                (cropWidth, cropHeight, cropLeft, cropTop) \<Rightarrow>
                  (case CropImage lib wand cropWidth cropHeight cropLeft cropTop of
                     (err, wand') \<Rightarrow> (err, True, wand'))))"

text \<open>
  \<^verbatim>\<open>scaleWand\<close> returns when \<^verbatim>\<open>getScaledDimensions\<close> does: its result is an option, \<open>None\<close>
  when the call does not return.
\<close>

definition scaleWand ::
  "platform \<Rightarrow> 'w imagick \<Rightarrow> ProcessorConfig \<Rightarrow> 'w \<Rightarrow> ImageProcessorOptions
     \<Rightarrow> 'w stage_result option" where
  "scaleWand pf lib cfg wand request =
     (let currentDimensions =
            \<lparr>Width = GetImageWidth lib wand, Height = GetImageHeight lib wand\<rparr>
      in
      case getScaledDimensions pf cfg currentDimensions request of
        None \<Rightarrow> None
      | Some newDimensions \<Rightarrow> Some (
      if newDimensions = currentDimensions then (None, False, wand)
      else
        case ResizeImage lib wand (Width newDimensions) (Height newDimensions)
               FILTER_LANCZOS (Fin 1) of
          (Some err, wand1) \<Rightarrow> (Some err, True, wand1)
        | (None, wand1) \<Rightarrow>
        case SetImageInterpolateMethod lib wand1 INTERPOLATE_PIXEL_BICUBIC of
          (Some err, wand2) \<Rightarrow> (Some err, True, wand2)
        | (None, wand2) \<Rightarrow>
        case StripImage lib wand2 of
          (Some err, wand3) \<Rightarrow> (Some err, True, wand3)
        | (None, wand3) \<Rightarrow>
        if GetImageFormat lib wand3 = ''JPEG'' then
          case SetImageInterlaceScheme lib wand3 INTERLACE_PLANE of
            (Some err, wand4) \<Rightarrow> (Some err, True, wand4)
          | (None, wand4) \<Rightarrow>
          case SetImageCompression lib wand4 COMPRESSION_JPEG of
            (Some err, wand5) \<Rightarrow> (Some err, True, wand5)
          | (None, wand5) \<Rightarrow>
          case SetImageCompressionQuality lib wand5 (ImageCompressionQuality cfg) of
            (Some err, wand6) \<Rightarrow> (Some err, True, wand6)
          | (None, wand6) \<Rightarrow> (None, True, wand6)
        else (None, True, wand3)))"

definition blurWand ::
  "'w imagick \<Rightarrow> ProcessorConfig \<Rightarrow> 'w \<Rightarrow> ImageProcessorOptions \<Rightarrow> 'w stage_result" where
  "blurWand lib cfg wand request =
     (if \<not> f64_eq (BlurRadius request) (Fin 0) then
        (let blurRadius =
               f64_mul (f64_mul (float64_of_uint64 (GetImageWidth lib wand))
                                (BlurRadius request))
                       (MaxBlurRadiusPercentage cfg)
         in case GaussianBlurImage lib wand blurRadius blurRadius of
              (err, wand') \<Rightarrow> (err, True, wand'))
      else (None, False, wand))"

definition grayscaleWand ::
  "'w imagick \<Rightarrow> ProcessorConfig \<Rightarrow> 'w \<Rightarrow> ImageProcessorOptions \<Rightarrow> 'w stage_result" where
  "grayscaleWand lib cfg wand request =
     (if \<not> GrayscaleDisabled cfg \<and> (GrayscaleByDefault cfg \<or> GrayScale request) then
        (case TransformImageColorspace lib wand COLORSPACE_GRAY of
           (err, wand') \<Rightarrow> (err, True, wand'))
      else (None, False, wand))"

record Image =
  Bytes :: "byte list"
  MimeType :: string

text \<open>
  \<^verbatim>\<open>ProcessImage\<close> returns a pointer to the processed image, or \<^verbatim>\<open>nil\<close> when a stage
  fails: \<open>Some (Some image)\<close> and \<open>Some None\<close>; the result is \<open>None\<close> when the call does
  not return, because the scale stage does not. The error of \<^verbatim>\<open>ReadImageBlob\<close> is
  dropped by the code. The deferred \<^verbatim>\<open>wand.Destroy()\<close> releases the wand and has no part
  in the result.
\<close>

definition ProcessImage ::
  "platform \<Rightarrow> 'w imagick \<Rightarrow> ProcessorConfig \<Rightarrow> Image \<Rightarrow> ImageProcessorOptions
     \<Rightarrow> Image option option" where
  "ProcessImage pf lib cfg img request =
     (let wand0 = snd (ReadImageBlob lib (NewMagickWand lib) (Bytes img)) in
      case cropWand pf lib wand0 request of (err, cropModified, wand1) \<Rightarrow>
      if err \<noteq> None then Some None else
      case scaleWand pf lib cfg wand1 request of
        None \<Rightarrow> None
      | Some (err, scaleModified, wand2) \<Rightarrow>
      if err \<noteq> None then Some None else
      case blurWand lib cfg wand2 request of (err, blurModified, wand3) \<Rightarrow>
      if err \<noteq> None then Some None else
      case grayscaleWand lib cfg wand3 request of (err, grayscaleModified, wand4) \<Rightarrow>
      if err \<noteq> None then Some None else
      Some (Some \<lparr>Bytes =
               (if \<not> cropModified \<and> \<not> scaleModified \<and> \<not> blurModified
                     \<and> \<not> grayscaleModified
                then Bytes img else GetImageBlob lib wand4),
            MimeType = ''image/'' @ strings_ToLower lib (GetImageFormat lib wand4)\<rparr>))"

section \<open>Routes and the option resolver\<close>

text \<open>
  Of a compiled \<^verbatim>\<open>regexp.Regexp\<close> the route uses three methods, which belong to Go's
  library: they are fields of the record. \<^verbatim>\<open>FindAllStringSubmatch\<close> is only called with
  \<^verbatim>\<open>n = -1\<close>. Of the request, the resolver reads the path of the URL and the form
  values (\<^verbatim>\<open>FormValue\<close> returns the empty string for a key that is absent).
\<close>

record Regexp =
  MatchString :: "string \<Rightarrow> bool"
  FindAllStringSubmatch :: "string \<Rightarrow> string list list"
  SubexpNames :: "string list"

record Route =
  Name :: string
  Pattern :: Regexp
  ImagePathIndex :: go_int

record Request =
  URL_Path :: string
  FormValue :: "string \<Rightarrow> string"

record ImageSourceOptions =
  Path :: string

definition ShouldHandleRequest :: "Route \<Rightarrow> Request \<Rightarrow> bool" where
  "ShouldHandleRequest p r = MatchString (Pattern p) (URL_Path r)"

text \<open>An index out of range makes the Go runtime panic.\<close>

datatype panic = IndexOutOfRange

text \<open>
  The loop of \<^verbatim>\<open>NamedSubexpMap\<close> over \<^verbatim>\<open>names\<close>, from index \<open>i\<close> on: unnamed groups are
  skipped, a later group of the same name overwrites an earlier one.
\<close>

fun NamedSubexpMap_loop ::
  "string list \<Rightarrow> string list \<Rightarrow> nat \<Rightarrow> (string \<rightharpoonup> string)
     \<Rightarrow> panic + (string \<rightharpoonup> string)" where
  "NamedSubexpMap_loop matches [] i m = Inr m"
| "NamedSubexpMap_loop matches (name # names) i m =
     (if name = [] then NamedSubexpMap_loop matches names (Suc i) m
      else if i < length matches
        then NamedSubexpMap_loop matches names (Suc i) (m(name \<mapsto> matches ! i))
      else Inl IndexOutOfRange)"

definition NamedSubexpMap :: "Regexp \<Rightarrow> string \<Rightarrow> panic + (string \<rightharpoonup> string)" where
  "NamedSubexpMap re s =
     (case FindAllStringSubmatch re s of
        [] \<Rightarrow> Inl IndexOutOfRange
      | matches # _ \<Rightarrow> NamedSubexpMap_loop matches (SubexpNames re) 0 Map.empty)"

text \<open>
  The parsers of Go's \<^verbatim>\<open>strconv\<close>, which the resolver calls and whose errors it drops:
  each field gives the value a parser returns (beside its error). \<^verbatim>\<open>ParseUint\<close> takes
  the base and the bit size, \<^verbatim>\<open>ParseFloat\<close> the bit size.
\<close>

record strconv =
  ParseUint :: "string \<Rightarrow> nat \<Rightarrow> nat \<Rightarrow> uint64"
  ParseFloat :: "string \<Rightarrow> nat \<Rightarrow> float64"
  ParseBool :: "string \<Rightarrow> bool"

text \<open>The closure \<^verbatim>\<open>pathOrFormValue\<close>: the path argument if there is one, else the form value.\<close>

definition pathOrFormValue :: "(string \<rightharpoonup> string) \<Rightarrow> Request \<Rightarrow> string \<Rightarrow> string" where
  "pathOrFormValue pathArgs r key =
     (case pathArgs key of Some val \<Rightarrow> val | None \<Rightarrow> FormValue r key)"

text \<open>
  Indexing a Go map with a key it does not hold gives the zero value, here the empty
  string. The \<^verbatim>\<open>Crop\<close> field is not named in the composite literal, so it is \<^verbatim>\<open>nil\<close>.
\<close>

definition SourceAndProcessorOptionsForRequest ::
  "strconv \<Rightarrow> Route \<Rightarrow> Request \<Rightarrow> panic + (ImageSourceOptions \<times> ImageProcessorOptions)"
  where
  "SourceAndProcessorOptionsForRequest sc p r =
     (case NamedSubexpMap (Pattern p) (URL_Path r) of
        Inl e \<Rightarrow> Inl e
      | Inr pathArgs \<Rightarrow>
          (let width = ParseUint sc (pathOrFormValue pathArgs r ''w'') 10 32;
               height = ParseUint sc (pathOrFormValue pathArgs r ''h'') 10 32;
               blurRadius = ParseFloat sc (pathOrFormValue pathArgs r ''blur'') 64;
               grayScale = ParseBool sc (pathOrFormValue pathArgs r ''grayscale'')
           in Inr (\<lparr>Path = (case pathArgs ''image_path'' of Some v \<Rightarrow> v | None \<Rightarrow> [])\<rparr>,
                   \<lparr>Dimensions = \<lparr>Width = width, Height = height\<rparr>,
                    BlurRadius = blurRadius,
                    GrayScale = grayScale,
                    Crop = None\<rparr>)))"

section \<open>Example inputs\<close>

definition example_platform :: platform where
  "example_platform = \<lparr>uint64_unrepresentable = (\<lambda>_. 0), int_unrepresentable = (\<lambda>_. 0)\<rparr>"

definition example_config :: ProcessorConfig where
  "example_config =
     \<lparr>ImageCompressionQuality = 85, MaintainAspectRatio = True,
      DefaultImageWidth = 0, DefaultImageHeight = 0,
      MaxImageWidth = 1000, MaxImageHeight = 0,
      MaxBlurRadiusPercentage = Fin (1 / 2),
      GrayscaleByDefault = False, GrayscaleDisabled = False\<rparr>"

text \<open>
  A toy image library for the examples: a wand records a size, a format and a blob; every
  blob decodes to a JPEG of 2000 by 1000; cropping and resizing set the size; the other
  operations leave the wand as it is, and none fails.
\<close>

record example_wand =
  wand_width :: uint64
  wand_height :: uint64
  wand_format :: string
  wand_blob :: "byte list"

definition example_imagick :: "example_wand imagick" where
  "example_imagick =
     \<lparr>NewMagickWand = \<lparr>wand_width = 0, wand_height = 0, wand_format = [], wand_blob = []\<rparr>,
      ReadImageBlob = (\<lambda>w b. (None, \<lparr>wand_width = 2000, wand_height = 1000,
                                       wand_format = ''JPEG'', wand_blob = b\<rparr>)),
      GetImageWidth = wand_width,
      GetImageHeight = wand_height,
      GetImageFormat = wand_format,
      GetImageBlob = wand_blob,
      CropImage = (\<lambda>w cw ch l t. (None, w\<lparr>wand_width := cw, wand_height := ch\<rparr>)),
      ResizeImage = (\<lambda>w nw nh f b. (None, w\<lparr>wand_width := nw, wand_height := nh\<rparr>)),
      SetImageInterpolateMethod = (\<lambda>w m. (None, w)),
      StripImage = (\<lambda>w. (None, w)),
      SetImageInterlaceScheme = (\<lambda>w i. (None, w)),
      SetImageCompression = (\<lambda>w c. (None, w)),
      SetImageCompressionQuality = (\<lambda>w q. (None, w)),
      GaussianBlurImage = (\<lambda>w rx ry. (None, w)),
      TransformImageColorspace = (\<lambda>w c. (None, w)),
      strings_ToLower = (\<lambda>s. s)\<rparr>"

text \<open>The same library when decoding fails: the wand stays empty, 0 by 0 with no format.\<close>

definition example_failing_imagick :: "example_wand imagick" where
  "example_failing_imagick =
     example_imagick\<lparr>ReadImageBlob := (\<lambda>w b. (Some ''no decode delegate'', w))\<rparr>"

definition example_image_wand :: example_wand where
  "example_image_wand =
     \<lparr>wand_width = 2000, wand_height = 1000, wand_format = ''JPEG'', wand_blob = [1, 2, 3]\<rparr>"

text \<open>
  A route whose pattern has the named groups \<^verbatim>\<open>image_path\<close> and \<^verbatim>\<open>w\<close> and matches one path,
  a request for that path with the query \<^verbatim>\<open>w=50\<close>, and toy parsers that know the inputs
  of the examples (and return the zero value, as Go does beside its error, otherwise).
\<close>

definition example_route :: Route where
  "example_route =
     \<lparr>Name = ''profile-photos'',
      Pattern =
        \<lparr>MatchString = (\<lambda>s. s = ''/users/100/a.jpg''),
         FindAllStringSubmatch =
           (\<lambda>s. if s = ''/users/100/a.jpg''
                then [[''/users/100/a.jpg'', ''/a.jpg'', ''100'']] else []),
         SubexpNames = [[], ''image_path'', ''w'']\<rparr>,
      ImagePathIndex = 1\<rparr>"

definition example_request :: Request where
  "example_request =
     \<lparr>URL_Path = ''/users/100/a.jpg'',
      FormValue = (\<lambda>key. if key = ''w'' then ''50'' else [])\<rparr>"

definition example_strconv :: strconv where
  "example_strconv =
     \<lparr>ParseUint = (\<lambda>s base bitSize. if s = ''100'' then 100 else if s = ''50'' then 50 else 0),
      ParseFloat = (\<lambda>s bitSize. Fin 0),
      ParseBool = (\<lambda>s. s = ''true'')\<rparr>"

section \<open>Facts about rounding\<close>

subsection \<open>round_half_even\<close>

lemma round_half_even_of_int [simp]: "round_half_even (of_int n) = n"
  by (simp add: round_half_even_def)

lemma round_half_even_cases:
  "round_half_even y = \<lfloor>y\<rfloor> \<and> y - of_int \<lfloor>y\<rfloor> \<le> 1 / 2 \<or>
   round_half_even y = \<lfloor>y\<rfloor> + 1 \<and> 1 / 2 \<le> y - of_int \<lfloor>y\<rfloor>"
  by (simp add: round_half_even_def Let_def)

lemma round_half_even_bounds:
  "of_int (round_half_even y) \<le> y + 1 / 2" "y - 1 / 2 \<le> of_int (round_half_even y)"
proof -
  have f: "of_int \<lfloor>y\<rfloor> \<le> y" "y < of_int \<lfloor>y\<rfloor> + 1" by linarith+
  from round_half_even_cases [of y] show "of_int (round_half_even y) \<le> y + 1 / 2"
  proof
    assume a: "round_half_even y = \<lfloor>y\<rfloor> \<and> y - of_int \<lfloor>y\<rfloor> \<le> 1 / 2"
    then have "of_int (round_half_even y) = (of_int \<lfloor>y\<rfloor> :: rat)" by simp
    then show ?thesis using f by linarith
  next
    assume a: "round_half_even y = \<lfloor>y\<rfloor> + 1 \<and> 1 / 2 \<le> y - of_int \<lfloor>y\<rfloor>"
    then have "of_int (round_half_even y) = (of_int \<lfloor>y\<rfloor> :: rat) + 1" by simp
    then show ?thesis using a by linarith
  qed
  from round_half_even_cases [of y] show "y - 1 / 2 \<le> of_int (round_half_even y)"
  proof
    assume a: "round_half_even y = \<lfloor>y\<rfloor> \<and> y - of_int \<lfloor>y\<rfloor> \<le> 1 / 2"
    then have "of_int (round_half_even y) = (of_int \<lfloor>y\<rfloor> :: rat)" by simp
    then show ?thesis using a by linarith
  next
    assume a: "round_half_even y = \<lfloor>y\<rfloor> + 1 \<and> 1 / 2 \<le> y - of_int \<lfloor>y\<rfloor>"
    then have "of_int (round_half_even y) = (of_int \<lfloor>y\<rfloor> :: rat) + 1" by simp
    then show ?thesis using f by linarith
  qed
qed

lemma round_half_even_range:
  "\<lfloor>y\<rfloor> \<le> round_half_even y" "round_half_even y \<le> \<lfloor>y\<rfloor> + 1"
  by (auto simp: round_half_even_def Let_def)

lemma round_half_even_mono:
  assumes "x \<le> y"
  shows "round_half_even x \<le> round_half_even y"
proof (cases "\<lfloor>x\<rfloor> = \<lfloor>y\<rfloor>")
  case True
  have "x - of_int \<lfloor>y\<rfloor> \<le> y - of_int \<lfloor>y\<rfloor>" using assms by simp
  then show ?thesis
    by (auto simp: round_half_even_def Let_def True)
next
  case False
  have "\<lfloor>x\<rfloor> \<le> \<lfloor>y\<rfloor>" using assms by (rule floor_mono)
  with False have "\<lfloor>x\<rfloor> + 1 \<le> \<lfloor>y\<rfloor>" by simp
  then show ?thesis
    using round_half_even_range(2) [of x] round_half_even_range(1) [of y] by linarith
qed

lemma round_half_even_le_int:
  "y \<le> of_int n \<Longrightarrow> round_half_even y \<le> n"
  using round_half_even_mono [of y "of_int n"] by simp

lemma round_half_even_ge_int:
  "of_int n \<le> y \<Longrightarrow> n \<le> round_half_even y"
  using round_half_even_mono [of "of_int n" y] by simp

subsection \<open>ilog2\<close>

lemma ilog2_bounds:
  "0 < a \<Longrightarrow> 2 powi (ilog2 a) \<le> a \<and> a < 2 powi (ilog2 a + 1)"
proof (induction a rule: ilog2.induct)
  case (1 a)
  show ?case
  proof (cases "2 \<le> a")
    case True
    with 1 have ih: "2 powi (ilog2 (a / 2)) \<le> a / 2 \<and> a / 2 < 2 powi (ilog2 (a / 2) + 1)"
      by simp
    have e: "ilog2 a = ilog2 (a / 2) + 1"
      using True 1(3) by (subst ilog2.simps) simp
    have "(2 :: rat) powi (ilog2 (a / 2) + 1) = 2 powi (ilog2 (a / 2)) * 2"
      by (rule power_int_add_1) simp
    moreover have "(2 :: rat) powi (ilog2 (a / 2) + 1 + 1) = 2 powi (ilog2 (a / 2) + 1) * 2"
      by (rule power_int_add_1) simp
    ultimately show ?thesis using ih unfolding e by (simp add: field_simps)
  next
    case False
    note lt2 = this
    show ?thesis
    proof (cases "a < 1")
      case True
      with 1 lt2 have ih:
        "2 powi (ilog2 (a * 2)) \<le> a * 2 \<and> a * 2 < 2 powi (ilog2 (a * 2) + 1)"
        by simp
      have e: "ilog2 a = ilog2 (a * 2) - 1"
        using True lt2 1(3) by (subst ilog2.simps) simp
      have "(2 :: rat) powi (ilog2 (a * 2) - 1 + 1) = 2 powi (ilog2 (a * 2) - 1) * 2"
        by (rule power_int_add_1) simp
      then have p: "(2 :: rat) powi (ilog2 (a * 2)) = 2 powi (ilog2 (a * 2) - 1) * 2"
        by simp
      have "(2 :: rat) powi (ilog2 (a * 2) + 1) = 2 powi (ilog2 (a * 2)) * 2"
        by (rule power_int_add_1) simp
      then show ?thesis using ih p unfolding e by (simp add: field_simps)
    next
      case False
      then have "ilog2 a = 0" using lt2 1(3) by (subst ilog2.simps) simp
      then show ?thesis using False lt2 by simp
    qed
  qed
qed

lemma ilog2_unique:
  assumes "2 powi e \<le> a" and "a < 2 powi (e + 1)"
  shows "ilog2 a = e"
proof -
  have pos: "0 < a" using assms(1) zero_less_power_int [of "2 :: rat" e] by linarith
  from ilog2_bounds [OF pos] have b: "2 powi (ilog2 a) \<le> a" "a < 2 powi (ilog2 a + 1)"
    by simp_all
  have "(2 :: rat) powi e < 2 powi (ilog2 a + 1)" using assms(1) b(2) by linarith
  then have "e < ilog2 a + 1"
    by (metis less_le_not_le not_le_imp_less one_le_numeral power_int_increasing)
  moreover have "(2 :: rat) powi (ilog2 a) < 2 powi (e + 1)" using assms(2) b(1) by linarith
  then have "ilog2 a < e + 1"
    by (metis less_le_not_le not_le_imp_less one_le_numeral power_int_increasing)
  ultimately show ?thesis by simp
qed

lemma ilog2_less:
  assumes "0 < a" and "a < 2 powi e"
  shows "ilog2 a < e"
proof -
  from ilog2_bounds [OF assms(1)] have "(2 :: rat) powi (ilog2 a) < 2 powi e"
    using assms(2) by linarith
  then show ?thesis
    by (metis less_le_not_le not_le_imp_less one_le_numeral power_int_increasing)
qed

lemma ilog2_ge:
  assumes "2 powi e \<le> a"
  shows "e \<le> ilog2 a"
proof -
  have pos: "0 < a" using assms zero_less_power_int [of "2 :: rat" e] by linarith
  from ilog2_bounds [OF pos] have "(2 :: rat) powi e < 2 powi (ilog2 a + 1)"
    using assms by linarith
  then have "e < ilog2 a + 1"
    by (metis less_le_not_le not_le_imp_less one_le_numeral power_int_increasing)
  then show ?thesis by simp
qed

lemma ilog2_mono:
  assumes "0 < a" and "a \<le> b"
  shows "ilog2 a \<le> ilog2 b"
proof -
  from ilog2_bounds [OF assms(1)] have "2 powi (ilog2 a) \<le> b" using assms(2) by linarith
  then show ?thesis by (rule ilog2_ge)
qed

subsection \<open>round_rat\<close>

lemma powi_split: "(2 :: rat) powi (m + n) = 2 powi m * 2 powi n"
  by (rule power_int_add) simp

lemma ulp_pos [simp]: "0 < ulp q"
  by (simp add: ulp_def)

lemma ulp_nonneg [simp]: "0 \<le> ulp q"
  by (simp add: ulp_def)

lemma ulp_neq_0 [simp]: "ulp q \<noteq> 0"
  by (simp add: ulp_def)

lemma ulp_split:
  "(2 :: rat) powi (expo a + 1) = 2 powi 53 * ulp a" "(2 :: rat) powi (expo a) = 2 powi 52 * ulp a"
proof -
  have "expo a + 1 = 53 + (expo a - 52)" "expo a = 52 + (expo a - 52)" by simp_all
  then show "(2 :: rat) powi (expo a + 1) = 2 powi 53 * ulp a"
    "(2 :: rat) powi (expo a) = 2 powi 52 * ulp a"
    unfolding ulp_def by (metis powi_split)+
qed

lemma round_half_even_0 [simp]: "round_half_even 0 = 0"
  by (simp add: round_half_even_def)

lemma expo_ge: "- 1022 \<le> expo q"
  by (simp add: expo_def)

lemma expo_upper:
  assumes "0 < a"
  shows "a < 2 powi (expo a + 1)"
proof -
  have "a < 2 powi (ilog2 a + 1)" using ilog2_bounds [OF assms] by simp
  also have "\<dots> \<le> 2 powi (expo a + 1)"
    using assms by (intro power_int_increasing) (simp_all add: expo_def)
  finally show ?thesis .
qed

lemma expo_lower:
  assumes "0 < a" and "- 1022 < expo a"
  shows "2 powi (expo a) \<le> a"
proof -
  from assms have "expo a = ilog2 a" by (simp add: expo_def max_def split: if_splits)
  then show ?thesis using ilog2_bounds [OF assms(1)] by simp
qed

lemma expo_mono:
  assumes "0 < a" and "a \<le> b"
  shows "expo a \<le> expo b"
proof -
  have "ilog2 a \<le> ilog2 b" using assms by (rule ilog2_mono)
  then show ?thesis using assms by (simp add: expo_def)
qed

lemma round_rat_0 [simp]: "round_rat 0 = 0"
  by (simp add: round_rat_def)

lemma round_rat_nonneg:
  assumes "0 \<le> a"
  shows "0 \<le> round_rat a"
proof -
  have "(of_int 0 :: rat) \<le> a / ulp a" using assms by simp
  then have "0 \<le> round_half_even (a / ulp a)" by (rule round_half_even_ge_int)
  then show ?thesis by (simp add: round_rat_def)
qed

lemma round_rat_upper:
  assumes "0 < a"
  shows "round_rat a \<le> 2 powi (expo a + 1)"
proof -
  note split = ulp_split(1) [of a]
  have "a / ulp a \<le> 2 powi 53"
    using expo_upper [OF assms] unfolding split by (simp add: divide_le_eq)
  then have "a / ulp a \<le> of_int (2 ^ 53)" by simp
  then have "round_half_even (a / ulp a) \<le> 2 ^ 53" by (rule round_half_even_le_int)
  then have "(of_int (round_half_even (a / ulp a)) :: rat) \<le> of_int (2 ^ 53)"
    by (simp only: of_int_le_iff)
  then have "of_int (round_half_even (a / ulp a)) * ulp a \<le> of_int (2 ^ 53) * ulp a"
    by (intro mult_right_mono) simp_all
  then show ?thesis unfolding round_rat_def split by simp
qed

lemma round_rat_lower:
  assumes "0 < a" and "- 1022 < expo a"
  shows "2 powi (expo a) \<le> round_rat a"
proof -
  note split = ulp_split(2) [of a]
  have "2 powi 52 \<le> a / ulp a"
    using expo_lower [OF assms] unfolding split by (simp add: le_divide_eq)
  then have "of_int (2 ^ 52) \<le> a / ulp a" by simp
  then have "2 ^ 52 \<le> round_half_even (a / ulp a)" by (rule round_half_even_ge_int)
  then have "(of_int (2 ^ 52) :: rat) \<le> of_int (round_half_even (a / ulp a))"
    by (simp only: of_int_le_iff)
  then have "of_int (2 ^ 52) * ulp a \<le> of_int (round_half_even (a / ulp a)) * ulp a"
    by (intro mult_right_mono) simp_all
  then show ?thesis unfolding round_rat_def split by simp
qed

lemma round_rat_mono:
  assumes "0 \<le> a" and "a \<le> b"
  shows "round_rat a \<le> round_rat b"
proof (cases "a = 0")
  case True
  then show ?thesis using assms round_rat_nonneg [of b] by simp
next
  case False
  with assms have pos: "0 < a" "0 < b" by simp_all
  have le: "expo a \<le> expo b" using pos(1) assms(2) by (rule expo_mono)
  show ?thesis
  proof (cases "expo a = expo b")
    case True
    then have u: "ulp a = ulp b" by (simp add: ulp_def)
    have "a / ulp b \<le> b / ulp b" using assms(2) by (intro divide_right_mono) simp_all
    then have "round_half_even (a / ulp b) \<le> round_half_even (b / ulp b)"
      by (rule round_half_even_mono)
    then have "(of_int (round_half_even (a / ulp b)) :: rat)
        \<le> of_int (round_half_even (b / ulp b))"
      by (simp only: of_int_le_iff)
    then show ?thesis
      unfolding round_rat_def u by (intro mult_right_mono) simp_all
  next
    case False
    with le have lt: "expo a + 1 \<le> expo b" by simp
    have "round_rat a \<le> 2 powi (expo a + 1)" using pos(1) by (rule round_rat_upper)
    also have "\<dots> \<le> 2 powi (expo b)"
      using lt by (intro power_int_increasing) simp_all
    also have "\<dots> \<le> round_rat b"
      using pos(2) lt expo_ge [of a] by (intro round_rat_lower) simp_all
    finally show ?thesis .
  qed
qed

lemma round_rat_exact:
  assumes "q = of_int m * 2 powi e" and "\<bar>m\<bar> < 2 ^ 53" and "- 1074 \<le> e"
  shows "round_rat q = q"
proof (cases "m = 0")
  case True
  then show ?thesis using assms(1) by simp
next
  case False
  have abs: "\<bar>q\<bar> = of_int \<bar>m\<bar> * 2 powi e"
    unfolding assms(1) by (simp add: abs_mult)
  have pos: "0 < \<bar>q\<bar>" using False unfolding abs by simp
  have "(of_int \<bar>m\<bar> :: rat) < of_int (2 ^ 53)"
    using assms(2) by (simp only: of_int_less_iff)
  then have "\<bar>q\<bar> < 2 powi 53 * 2 powi e"
    unfolding abs by (intro mult_strict_right_mono) simp_all
  also have "\<dots> = 2 powi (53 + e)" by (subst power_int_add) simp_all
  finally have "ilog2 \<bar>q\<bar> < 53 + e" using pos by (intro ilog2_less)
  then have "expo q \<le> e + 52" using assms(3) by (simp add: expo_def)
  then obtain k where k: "e - (expo q - 52) = int k"
    using nonneg_int_cases [of "e - (expo q - 52)"] by auto
  have "q / ulp q = of_int m * (2 powi e / 2 powi (expo q - 52))"
    unfolding assms(1) ulp_def by simp
  also have "2 powi e / 2 powi (expo q - 52) = (2 :: rat) powi (e - (expo q - 52))"
    by (subst power_int_diff) simp_all
  also have "\<dots> = of_int (2 ^ k)" unfolding k by simp
  finally have "q / ulp q = of_int (m * 2 ^ k)" by simp
  then have "round_rat q = (q / ulp q) * ulp q"
    unfolding round_rat_def by (simp only: round_half_even_of_int)
  then show ?thesis by simp
qed

lemma round_rat_power:
  assumes "- 1074 \<le> e"
  shows "round_rat (2 powi e) = 2 powi e"
  by (rule round_rat_exact [where m = 1 and e = e]) (use assms in simp_all)

lemma round_rat_idem:
  assumes "0 \<le> a"
  shows "round_rat (round_rat a) = round_rat a"
proof (cases "a = 0")
  case True
  then show ?thesis by simp
next
  case False
  with assms have pos: "0 < a" by simp
  define n where "n = round_half_even (a / ulp a)"
  have r: "round_rat a = of_int n * 2 powi (expo a - 52)"
    by (simp add: round_rat_def n_def ulp_def)
  note split = ulp_split(1) [of a]
  have "a / ulp a \<le> 2 powi 53"
    using expo_upper [OF pos] unfolding split by (simp add: divide_le_eq)
  then have "a / ulp a \<le> of_int (2 ^ 53)" by simp
  then have n_le: "n \<le> 2 ^ 53" unfolding n_def by (rule round_half_even_le_int)
  have "(of_int 0 :: rat) \<le> a / ulp a" using assms by simp
  then have n_ge: "0 \<le> n" unfolding n_def by (rule round_half_even_ge_int)
  have e: "- 1074 \<le> expo a - 52" using expo_ge [of a] by simp
  show ?thesis
  proof (cases "n = 2 ^ 53")
    case True
    have "round_rat a = 2 powi 53 * 2 powi (expo a - 52)" unfolding r True by simp
    also have "\<dots> = 2 powi (53 + (expo a - 52))" by (subst power_int_add) simp_all
    finally have p: "round_rat a = 2 powi (53 + (expo a - 52))" .
    show ?thesis unfolding p using e by (intro round_rat_power) simp
  next
    case False
    with n_le n_ge have "\<bar>n\<bar> < 2 ^ 53" by simp
    with r e show ?thesis by (intro round_rat_exact [where m = n and e = "expo a - 52"])
  qed
qed

lemma round_rat_error:
  assumes "2 powi (- 1022) \<le> a"
  shows "a - a / 2 ^ 53 \<le> round_rat a" and "round_rat a \<le> a + a / 2 ^ 53"
proof -
  have pos: "0 < a" using assms zero_less_power_int [of "2 :: rat" "- 1022"] by linarith
  have "- 1022 \<le> ilog2 a" using assms by (rule ilog2_ge)
  then have ex: "expo a = ilog2 a" using pos by (simp add: expo_def)
  have low: "2 powi (expo a) \<le> a" unfolding ex using ilog2_bounds [OF pos] by simp
  note split = ulp_split(2) [of a]
  have u: "ulp a / 2 \<le> a / 2 ^ 53"
    using low unfolding split by simp
  have "round_rat a = of_int (round_half_even (a / ulp a)) * ulp a"
    by (simp add: round_rat_def)
  moreover have "(a / ulp a - 1 / 2) * ulp a \<le> of_int (round_half_even (a / ulp a)) * ulp a"
    using round_half_even_bounds(2) [of "a / ulp a"] by (intro mult_right_mono) simp_all
  moreover have "of_int (round_half_even (a / ulp a)) * ulp a \<le> (a / ulp a + 1 / 2) * ulp a"
    using round_half_even_bounds(1) [of "a / ulp a"] by (intro mult_right_mono) simp_all
  moreover have "(a / ulp a - 1 / 2) * ulp a = a - ulp a / 2"
    "(a / ulp a + 1 / 2) * ulp a = a + ulp a / 2"
    by (simp_all add: field_simps)
  ultimately show "a - a / 2 ^ 53 \<le> round_rat a" and "round_rat a \<le> a + a / 2 ^ 53"
    using u by linarith+
qed

subsection \<open>Evaluating a rounding\<close>

lemma round_half_even_unique:
  assumes "of_int n - 1 / 2 < y" and "y < of_int n + 1 / 2"
  shows "round_half_even y = n"
proof -
  have "of_int (round_half_even y) < (of_int n :: rat) + 1"
    using round_half_even_bounds(1) [of y] assms(2) by linarith
  then have "(of_int (round_half_even y) :: rat) < of_int (n + 1)" by simp
  then have "round_half_even y < n + 1" by (simp only: of_int_less_iff)
  moreover have "(of_int n :: rat) - 1 < of_int (round_half_even y)"
    using round_half_even_bounds(2) [of y] assms(1) by linarith
  then have "(of_int (n - 1) :: rat) < of_int (round_half_even y)" by simp
  then have "n - 1 < round_half_even y" by (simp only: of_int_less_iff)
  ultimately show ?thesis by simp
qed

lemma round_half_even_tie:
  assumes "y = of_int n + 1 / 2"
  shows "round_half_even y = (if even n then n else n + 1)"
proof -
  have "\<lfloor>y\<rfloor> = n" unfolding assms by (simp add: floor_eq_iff)
  then show ?thesis by (simp add: round_half_even_def Let_def assms)
qed

lemma expo_eq:
  assumes "2 powi e \<le> \<bar>q\<bar>" and "\<bar>q\<bar> < 2 powi (e + 1)" and "- 1022 \<le> e"
  shows "expo q = e"
  using ilog2_unique [OF assms(1,2)] assms(3) by (simp add: expo_def)

lemma round_rat_eval:
  assumes "2 powi e \<le> \<bar>q\<bar>" and "\<bar>q\<bar> < 2 powi (e + 1)" and "- 1022 \<le> e"
    and "round_half_even (q / 2 powi (e - 52)) = n"
  shows "round_rat q = of_int n * 2 powi (e - 52)"
  using assms(4) by (simp add: round_rat_def ulp_def expo_eq [OF assms(1-3)])

subsection \<open>f64_round\<close>

lemma f64_round_Fin:
  assumes "- (2 ^ 1024) < round_rat q" and "round_rat q < 2 ^ 1024"
  shows "f64_round q = Fin (round_rat q)"
  using assms by (simp add: f64_round_def Let_def)

lemma f64_round_not_NaN [simp]: "f64_round q \<noteq> NaN"
  by (simp add: f64_round_def Let_def)

lemma round_rat_le_power:
  assumes "0 \<le> a" and "a \<le> 2 powi e" and "- 1074 \<le> e"
  shows "round_rat a \<le> 2 powi e"
  using round_rat_mono [OF assms(1,2)] round_rat_power [OF assms(3)] by simp

lemma round_rat_ge_power:
  assumes "2 powi e \<le> a" and "- 1074 \<le> e"
  shows "2 powi e \<le> round_rat a"
  using round_rat_mono [of "2 powi e" a] assms round_rat_power [OF assms(2)] by simp

lemma f64_round_bounded:
  assumes "0 \<le> a" and "a \<le> 2 powi e" and "- 1074 \<le> e" and "e < 1024"
  shows "f64_round a = Fin (round_rat a)"
proof -
  have "round_rat a \<le> 2 powi e" using assms(1-3) by (rule round_rat_le_power)
  also have "(2 :: rat) powi e < 2 powi 1024"
    using assms(4) by (intro power_int_strict_increasing) simp_all
  finally have "round_rat a < 2 ^ 1024" by simp
  moreover have "- (2 ^ 1024) < round_rat a"
    using round_rat_nonneg [OF assms(1)]
    by (rule less_le_trans [rotated]) simp
  ultimately show ?thesis by (rule f64_round_Fin [rotated])
qed

lemma f64_round_exact:
  assumes "q = of_int m * 2 powi e" and "\<bar>m\<bar> < 2 ^ 53" and "- 1074 \<le> e" and "e \<le> 970"
  shows "f64_round q = Fin q"
proof -
  have r: "round_rat q = q" using assms(1-3) by (rule round_rat_exact)
  have "\<bar>q\<bar> = of_int \<bar>m\<bar> * 2 powi e" unfolding assms(1) by (simp add: abs_mult)
  also have "\<dots> \<le> 2 ^ 53 * 2 powi e"
  proof (rule mult_right_mono)
    have "(of_int \<bar>m\<bar> :: rat) \<le> of_int (2 ^ 53)"
      using assms(2) by (simp only: of_int_le_iff)
    then show "(of_int \<bar>m\<bar> :: rat) \<le> 2 ^ 53" by simp
    show "0 \<le> (2 :: rat) powi e" by simp
  qed
  also have "\<dots> = 2 powi (53 + e)" by (simp add: powi_split)
  also have "\<dots> < 2 powi 1024"
    using assms(4) by (intro power_int_strict_increasing) simp_all
  finally have "\<bar>q\<bar> < 2 ^ 1024" by simp
  then have "- (2 ^ 1024) < q" "q < 2 ^ 1024" by linarith+
  then show ?thesis by (simp add: f64_round_def Let_def r)
qed

lemma f64_round_of_int:
  assumes "\<bar>n\<bar> < 2 ^ 53"
  shows "f64_round (of_int n) = Fin (of_int n)"
  by (rule f64_round_exact [where m = n and e = 0]) (use assms in simp_all)

lemma f64_round_halves:
  assumes "\<bar>n\<bar> < 2 ^ 53"
  shows "f64_round (of_int n / 2) = Fin (of_int n / 2)"
  by (rule f64_round_exact [where m = n and e = "- 1"])
    (use assms in \<open>simp_all add: power_int_minus field_simps\<close>)

lemma f64_round_quarters:
  assumes "\<bar>n\<bar> < 2 ^ 53"
  shows "f64_round (of_int n / 4) = Fin (of_int n / 4)"
  by (rule f64_round_exact [where m = n and e = "- 2"])
    (use assms in \<open>simp_all add: power_int_minus field_simps\<close>)

lemma f64_round_numeral [simp]:
  "(numeral k :: int) < 2 ^ 53 \<Longrightarrow> f64_round (numeral k) = Fin (numeral k)"
  using f64_round_of_int [of "numeral k"] by simp

lemma f64_round_0 [simp]: "f64_round 0 = Fin 0"
  using f64_round_of_int [of 0] by simp

lemma f64_round_1 [simp]: "f64_round 1 = Fin 1"
  using f64_round_of_int [of 1] by simp

lemma f64_round_numeral_half [simp]:
  "(numeral k :: int) < 2 ^ 53 \<Longrightarrow> f64_round (numeral k / 2) = Fin (numeral k / 2)"
  using f64_round_halves [of "numeral k"] by simp

lemma f64_round_one_half [simp]: "f64_round (1 / 2) = Fin (1 / 2)"
  using f64_round_halves [of 1] by simp

section \<open>Auxiliary facts\<close>

lemma trunc_to_zero_of_int [simp]: "trunc_to_zero (of_int n) = n"
  by (simp add: trunc_to_zero_def)

lemma uint_word_of_int_64:
  assumes "0 \<le> n" and "n < 2 ^ 64"
  shows "uint (word_of_int n :: uint64) = n"
  using assms by (simp add: uint_word_of_int_eq take_bit_int_eq_self)

lemma sint_word_of_int_64:
  assumes "- (2 ^ 63) \<le> n" and "n < 2 ^ 63"
  shows "sint (word_of_int n :: go_int) = n"
  using assms by (simp add: sint_sbintrunc' signed_take_bit_int_eq_self)

text \<open>The conversion of a \<^verbatim>\<open>uint64\<close> is finite, and exact below \<open>2\<^sup>5\<^sup>3\<close>.\<close>

lemma float64_of_uint64_uint:
  "float64_of_uint64 n = f64_round (of_int (uint n))"
  by (simp add: float64_of_uint64_def)

lemma float64_of_uint64_Fin:
  fixes n :: uint64
  shows "float64_of_uint64 n = Fin (round_rat (of_int (uint n)))"
    and "0 \<le> round_rat (of_int (uint n))"
    and "round_rat (of_int (uint n)) \<le> 2 ^ 64"
proof -
  define N where "N = uint n"
  have N: "0 \<le> N" "N < 2 ^ 64"
    using uint_lt2p [of n] by (simp_all add: N_def)
  have a: "0 \<le> (of_int N :: rat)" using N(1) by simp
  have "(of_int N :: rat) \<le> of_int (2 ^ 64)" using N(2) by (simp only: of_int_le_iff)
  then have b: "(of_int N :: rat) \<le> 2 powi 64" by simp
  have "f64_round (of_int N) = Fin (round_rat (of_int N))"
    using a b by (rule f64_round_bounded) simp_all
  then show "float64_of_uint64 n = Fin (round_rat (of_int (uint n)))"
    by (simp only: float64_of_uint64_uint N_def)
  show "0 \<le> round_rat (of_int (uint n))"
    using round_rat_nonneg [OF a] by (simp only: N_def)
  have "round_rat (of_int N) \<le> 2 powi 64"
    using a b by (rule round_rat_le_power) simp
  then show "round_rat (of_int (uint n)) \<le> 2 ^ 64"
    by (simp add: N_def del: of_int_uint)
qed

lemma float64_of_uint64_exact:
  fixes n :: uint64
  assumes "uint n < 2 ^ 53"
  shows "round_rat (of_int (uint n)) = of_int (uint n)"
proof -
  define N where "N = uint n"
  have N: "0 \<le> N" "N < 2 ^ 53" using assms by (simp_all add: N_def)
  have "round_rat (of_int N) = of_int N"
    by (rule round_rat_exact [where m = N and e = 0]) (use N in simp_all)
  then show ?thesis by (simp only: N_def)
qed

lemma float64_of_uint64_ge_1:
  fixes n :: uint64
  assumes "n \<noteq> 0"
  shows "1 \<le> round_rat (of_int (uint n))"
proof -
  define N where "N = uint n"
  have "0 < N" using assms by (simp add: N_def word_greater_zero_iff [symmetric] word_less_def)
  then have "(2 :: rat) powi 0 \<le> of_int N" by simp
  then have "(2 :: rat) powi 0 \<le> round_rat (of_int N)"
    by (rule round_rat_ge_power) simp
  then show ?thesis by (simp add: N_def del: of_int_uint)
qed

lemma float64_of_uint64_0: "round_rat (of_int (uint (0 :: uint64))) = 0"
  by simp

text \<open>The aspect ratio of a size of nonzero height is a finite number.\<close>

lemma AspectRatio_Fin:
  assumes "Height d \<noteq> 0"
  shows "AspectRatio d =
      Fin (round_rat (round_rat (of_int (uint (Width d))) / round_rat (of_int (uint (Height d)))))"
    and "0 \<le> round_rat (round_rat (of_int (uint (Width d))) / round_rat (of_int (uint (Height d))))"
proof -
  define w where "w = round_rat (of_int (uint (Width d)))"
  define h where "h = round_rat (of_int (uint (Height d)))"
  have w: "0 \<le> w" "w \<le> 2 ^ 64"
    unfolding w_def by (rule float64_of_uint64_Fin)+
  have h: "1 \<le> h" unfolding h_def using assms by (rule float64_of_uint64_ge_1)
  have q: "0 \<le> w / h" using w h by simp
  have "w / h \<le> w" using w h by (simp add: divide_le_eq mult_le_cancel_left1)
  then have "w / h \<le> 2 ^ 64" using w by linarith
  then have q2: "w / h \<le> 2 powi 64" by simp
  have "f64_round (w / h) = Fin (round_rat (w / h))"
    using q q2 by (rule f64_round_bounded) simp_all
  moreover have "h \<noteq> 0" using h by simp
  ultimately have "f64_div (Fin w) (Fin h) = Fin (round_rat (w / h))" by simp
  then show "AspectRatio d =
      Fin (round_rat (round_rat (of_int (uint (Width d))) / round_rat (of_int (uint (Height d)))))"
    by (simp only: AspectRatio_def float64_of_uint64_Fin w_def h_def)
  show "0 \<le> round_rat (round_rat (of_int (uint (Width d))) / round_rat (of_int (uint (Height d))))"
    using round_rat_nonneg [OF q] by (simp only: w_def h_def)
qed

lemma AspectRatio_finite:
  "Height d \<noteq> 0 \<Longrightarrow> \<exists>a. AspectRatio d = Fin a"
  using AspectRatio_Fin(1) by blast

lemma f64_trichotomy:
  "f64_gt (Fin a) (Fin b) \<or> f64_lt (Fin a) (Fin b) \<or> Fin a = Fin b"
  by (auto simp: f64_gt_def)

lemma f64_div_by_zero:
  "f64_div (float64_of_uint64 w) (float64_of_uint64 0) = (if w = 0 then NaN else PInf)"
proof (cases "w = 0")
  case True
  then show ?thesis by (simp add: float64_of_uint64_def)
next
  case False
  have "0 < round_rat (of_int (uint w))"
    using float64_of_uint64_ge_1 [OF False] by linarith
  then show ?thesis
    using False by (simp add: float64_of_uint64_Fin(1) [of w] float64_of_uint64_def [of 0])
qed

lemma floor_half: "\<lfloor>(1 :: rat) / 2\<rfloor> = 0"
  by (simp add: floor_eq_iff)

text \<open>
  Below \<open>2\<^sup>5\<^sup>1\<close> the quarters are binary64 numbers, so that a value of at most
  \<open>n + 1/4\<close>, rounded, increased by one half, rounded and rounded down, is at most \<open>n\<close>.
\<close>

lemma round_rat_quarters:
  assumes "0 \<le> n" and "n < 2 ^ 51"
  shows "round_rat (of_int n + 1 / 4) = of_int n + 1 / 4"
    and "round_rat (of_int n + 3 / 4) = of_int n + 3 / 4"
proof -
  show "round_rat (of_int n + 1 / 4) = of_int n + 1 / 4"
    by (rule round_rat_exact [where m = "4 * n + 1" and e = "- 2"])
      (use assms in \<open>simp_all add: power_int_minus field_simps\<close>)
  show "round_rat (of_int n + 3 / 4) = of_int n + 3 / 4"
    by (rule round_rat_exact [where m = "4 * n + 3" and e = "- 2"])
      (use assms in \<open>simp_all add: power_int_minus field_simps\<close>)
qed

lemma rounded_half_floor:
  fixes r :: rat and n :: int
  assumes "0 \<le> r" and "r \<le> of_int n + 1 / 4" and "0 \<le> n" and "n < 2 ^ 51"
  obtains k where "math_Floor (f64_add (f64_round r) (Fin (1 / 2))) = Fin (of_int k)"
    and "math_Floor (f64_add (Fin (1 / 2)) (f64_round r)) = Fin (of_int k)"
    and "0 \<le> k" and "k \<le> n"
proof -
  define r1 where "r1 = round_rat r"
  define r2 where "r2 = round_rat (r1 + 1 / 2)"
  have "(of_int n :: rat) \<le> of_int (2 ^ 51)" using assms(4) by (simp only: of_int_le_iff)
  then have n: "(of_int n :: rat) \<le> 2 ^ 51" by simp
  have b1: "r \<le> 2 powi 52" using assms(2) n by simp
  have f1: "f64_round r = Fin r1"
    unfolding r1_def using assms(1) b1 by (rule f64_round_bounded) simp_all
  have r1: "0 \<le> r1" "r1 \<le> of_int n + 1 / 4"
    using round_rat_nonneg [OF assms(1)] round_rat_mono [OF assms(1,2)]
    by (simp_all add: r1_def round_rat_quarters(1) [OF assms(3,4)])
  have h: "0 \<le> r1 + 1 / 2" "r1 + 1 / 2 \<le> of_int n + 3 / 4" using r1 by simp_all
  have b2: "r1 + 1 / 2 \<le> 2 powi 52" using h(2) n by simp
  have f2: "f64_round (r1 + 1 / 2) = Fin r2"
    unfolding r2_def using h(1) b2 by (rule f64_round_bounded) simp_all
  have r2: "0 \<le> r2" "r2 \<le> of_int n + 3 / 4"
    using round_rat_nonneg [OF h(1)] round_rat_mono [OF h]
    by (simp_all add: r2_def round_rat_quarters(2) [OF assms(3,4)])
  have "r2 < of_int n + 1" using r2(2) by simp
  then have le: "\<lfloor>r2\<rfloor> \<le> n" by (simp add: floor_le_iff)
  have ge: "0 \<le> \<lfloor>r2\<rfloor>" using r2(1) by simp
  have e1: "math_Floor (f64_add (f64_round r) (Fin (1 / 2))) = Fin (of_int \<lfloor>r2\<rfloor>)"
    by (simp add: f1 f2)
  have "f64_add (Fin (1 / 2)) (Fin r1) = f64_add (Fin r1) (Fin (1 / 2))"
    by (simp add: add.commute)
  then have e2: "math_Floor (f64_add (Fin (1 / 2)) (f64_round r)) = Fin (of_int \<lfloor>r2\<rfloor>)"
    using e1 by (simp only: f1)
  from e1 e2 ge le show ?thesis by (rule that)
qed

lemma uint64_of_float64_int:
  assumes "0 \<le> k" and "k < 2 ^ 64"
  shows "uint (uint64_of_float64 pf (Fin (of_int k))) = k"
  using assms by (simp add: uint64_of_float64_def uint_word_of_int_64)

lemma int_of_float64_int:
  assumes "- (2 ^ 63) \<le> k" and "k < 2 ^ 63"
  shows "sint (int_of_float64 pf (Fin (of_int k))) = k"
  using assms by (simp add: int_of_float64_def sint_word_of_int_64)

text \<open>The aspect ratio of nonzero requested dimensions is a positive binary64 number.\<close>

lemma AspectRatio_positive:
  assumes "Width d \<noteq> 0" and "Height d \<noteq> 0"
  obtains q where "AspectRatio d = Fin q" and "0 < q" and "round_rat q = q"
proof -
  define w where "w = round_rat (of_int (uint (Width d)))"
  define h where "h = round_rat (of_int (uint (Height d)))"
  have w: "1 \<le> w" unfolding w_def using assms(1) by (rule float64_of_uint64_ge_1)
  have h: "1 \<le> h" "h \<le> 2 ^ 64"
    unfolding h_def using assms(2) by (rule float64_of_uint64_ge_1, intro float64_of_uint64_Fin(3))
  have "1 / 2 ^ 64 \<le> 1 / h" using h by (simp add: field_simps)
  also have "1 / h \<le> w / h" using w h by (simp add: divide_le_cancel)
  finally have "2 powi (- 64) \<le> w / h" by (simp add: power_int_minus field_simps)
  then have "2 powi (- 64) \<le> round_rat (w / h)" by (rule round_rat_ge_power) simp
  moreover have "(0 :: rat) < 2 powi (- 64)" by simp
  ultimately have pos: "0 < round_rat (w / h)" by linarith
  have "0 \<le> w / h" using w h by simp
  then have idem: "round_rat (round_rat (w / h)) = round_rat (w / h)" by (rule round_rat_idem)
  have "AspectRatio d = Fin (round_rat (w / h))"
    unfolding w_def h_def using assms(2) by (rule AspectRatio_Fin(1))
  then show ?thesis using pos idem by (rule that)
qed

text \<open>
  The two estimates behind every scaled dimension, for sizes below \<open>2\<^sup>5\<^sup>1\<close>: dividing a
  width \<open>w\<close> by a ratio that is at least the rounded \<open>w / h\<close> gives at most \<open>h + 1/4\<close>,
  and multiplying the rounded \<open>w / h\<close> by a height below \<open>h\<close> gives at most \<open>w\<close>.
\<close>

lemma quotient_le_quarter:
  fixes W H :: int and q :: rat
  assumes "0 < W" and "0 < H" and "H < 2 ^ 51" and "round_rat (of_int W / of_int H) \<le> q"
    and "0 < q"
  shows "of_int W / q \<le> of_int H + 1 / 4"
proof -
  define t :: rat where "t = of_int W / of_int H"
  have t0: "0 < t" using assms(1,2) by (simp add: t_def)
  have "H \<le> 2 ^ 51 - 1" using assms(3) by simp
  then have "(of_int H :: rat) \<le> of_int (2 ^ 51 - 1)"
    by (simp only: of_int_le_iff)
  then have Hr: "(of_int H :: rat) \<le> 2 ^ 51 - 1" by simp
  have "1 / 2 ^ 51 \<le> 1 / (of_int H :: rat)" using Hr assms(2) by (simp add: field_simps)
  also have "\<dots> \<le> t"
  proof -
    have "(1 :: rat) \<le> of_int W" using assms(1) by simp
    then show ?thesis using assms(2) by (simp add: t_def divide_le_cancel)
  qed
  finally have "2 powi (- 51) \<le> t" by (simp add: power_int_minus field_simps)
  moreover have "(2 :: rat) powi (- 1022) \<le> 2 powi (- 51)"
    by (intro power_int_increasing) simp_all
  ultimately have "2 powi (- 1022) \<le> t" by linarith
  then have "t - t / 2 ^ 53 \<le> round_rat t" by (rule round_rat_error(1))
  then have low: "t - t / 2 ^ 53 \<le> q" using assms(4) by (simp add: t_def)
  have e: "of_int H \<le> (1 - 1 / 2 ^ 53) * ((of_int H :: rat) + 1 / 4)"
    using Hr by (simp add: algebra_simps)
  have "(of_int W :: rat) = t * of_int H" using assms(2) by (simp add: t_def)
  also have "\<dots> \<le> t * ((1 - 1 / 2 ^ 53) * (of_int H + 1 / 4))"
    using e t0 by (intro mult_left_mono) simp_all
  also have "\<dots> = (t - t / 2 ^ 53) * (of_int H + 1 / 4)" by (simp add: algebra_simps)
  also have "\<dots> \<le> q * (of_int H + 1 / 4)"
    using low assms(2) by (intro mult_right_mono) simp_all
  finally show ?thesis
    using assms(5) by (simp add: divide_le_eq mult.commute)
qed

lemma product_le_width:
  fixes W H M :: int
  assumes "0 \<le> W" and "0 \<le> M" and "M < H" and "H < 2 ^ 51"
  shows "of_int M * round_rat (of_int W / of_int H) \<le> of_int W"
proof (cases "W = 0")
  case True
  then show ?thesis by simp
next
  case False
  with assms(1) have W: "0 < W" by simp
  have H: "0 < H" using assms(2,3) by simp
  define t :: rat where "t = of_int W / of_int H"
  have t0: "0 < t" using W H by (simp add: t_def)
  have "H \<le> 2 ^ 51 - 1" using assms(4) by simp
  then have "(of_int H :: rat) \<le> of_int (2 ^ 51 - 1)"
    by (simp only: of_int_le_iff)
  then have Hr: "(of_int H :: rat) \<le> 2 ^ 51 - 1" by simp
  have "1 / 2 ^ 51 \<le> 1 / (of_int H :: rat)" using Hr H by (simp add: field_simps)
  also have "\<dots> \<le> t"
  proof -
    have "(1 :: rat) \<le> of_int W" using W by simp
    then show ?thesis using H by (simp add: t_def divide_le_cancel)
  qed
  finally have "2 powi (- 51) \<le> t" by (simp add: power_int_minus field_simps)
  moreover have "(2 :: rat) powi (- 1022) \<le> 2 powi (- 51)"
    by (intro power_int_increasing) simp_all
  ultimately have "2 powi (- 1022) \<le> t" by linarith
  then have up: "round_rat t \<le> t + t / 2 ^ 53" by (rule round_rat_error(2))
  have "M \<le> H - 1" using assms(3) by simp
  then have "(of_int M :: rat) \<le> of_int (H - 1)" by (simp only: of_int_le_iff)
  then have Mr: "(of_int M :: rat) \<le> of_int H - 1" by simp
  have M0: "0 \<le> (of_int M :: rat)" using assms(2) by simp
  have e: "(of_int M :: rat) * (1 + 1 / 2 ^ 53) \<le> of_int H"
  proof -
    have "(of_int M :: rat) * (1 + 1 / 2 ^ 53) \<le> (of_int H - 1) * (1 + 1 / 2 ^ 53)"
      using Mr by (intro mult_right_mono) simp_all
    also have "\<dots> \<le> of_int H" using Hr by (simp add: algebra_simps)
    finally show ?thesis .
  qed
  have "of_int M * round_rat t \<le> of_int M * (t + t / 2 ^ 53)"
    using up M0 by (rule mult_left_mono)
  also have "\<dots> = t * (of_int M * (1 + 1 / 2 ^ 53))" by (simp add: algebra_simps)
  also have "\<dots> \<le> t * of_int H" using e t0 by (intro mult_left_mono) simp_all
  also have "\<dots> = of_int W" using H by (simp add: t_def)
  finally show ?thesis by (simp only: t_def)
qed

section \<open>Properties of the dimension engine\<close>

text \<open>
  C1. With maintain-aspect-ratio enabled, a current size and a requested size whose four
  dimensions are all nonzero: when the requested ratio is strictly greater than the
  image's, the engine recurses with the requested width set to zero, and the result takes
  its width from the requested height; when strictly smaller, it recurses with the
  requested height set to zero, and the result takes its height from the requested width;
  when the ratios are equal, the requested size is returned unchanged. One of the three
  cases always applies.
\<close>

theorem scaleToRequestedDimensions_compares_ratios:
  assumes "Width cur \<noteq> 0" and "Height cur \<noteq> 0"
    and "Width req \<noteq> 0" and "Height req \<noteq> 0"
    and "MaintainAspectRatio cfg"
  shows
    "(f64_gt (AspectRatio req) (AspectRatio cur) \<longrightarrow>
        scaleToRequestedDimensions pf cfg cur req =
          scaleToRequestedDimensions pf cfg cur \<lparr>Width = 0, Height = Height req\<rparr> \<and>
        scaleToRequestedDimensions pf cfg cur req =
          \<lparr>Width = getAspectScaledWidth pf (AspectRatio cur) (Height req),
           Height = Height req\<rparr>) \<and>
     (f64_lt (AspectRatio req) (AspectRatio cur) \<longrightarrow>
        scaleToRequestedDimensions pf cfg cur req =
          scaleToRequestedDimensions pf cfg cur \<lparr>Width = Width req, Height = 0\<rparr> \<and>
        scaleToRequestedDimensions pf cfg cur req =
          \<lparr>Width = Width req,
           Height = getAspectScaledHeight pf (AspectRatio cur) (Width req)\<rparr>) \<and>
     (AspectRatio req = AspectRatio cur \<longrightarrow>
        scaleToRequestedDimensions pf cfg cur req = req) \<and>
     (f64_gt (AspectRatio req) (AspectRatio cur) \<or>
      f64_lt (AspectRatio req) (AspectRatio cur) \<or>
      AspectRatio req = AspectRatio cur)"
proof -
  have pos: "0 < Width req" "0 < Height req"
    using assms by (simp_all add: word_greater_zero_iff)
  obtain a where ra: "AspectRatio req = Fin a"
    using AspectRatio_finite [OF assms(4)] by blast
  obtain b where rb: "AspectRatio cur = Fin b"
    using AspectRatio_finite [OF assms(2)] by blast
  have no_gt_lt: "\<not> (f64_gt (Fin a) (Fin b) \<and> f64_lt (Fin a) (Fin b))"
    by (auto simp: f64_gt_def)
  have unfold: "scaleToRequestedDimensions pf cfg cur req =
      (if f64_gt (Fin a) (Fin b) then
         scaleToRequestedDimensions pf cfg cur \<lparr>Width = 0, Height = Height req\<rparr>
       else if f64_lt (Fin a) (Fin b) then
         scaleToRequestedDimensions pf cfg cur \<lparr>Width = Width req, Height = 0\<rparr>
       else req)"
    using pos assms(5) ra rb
    by (subst scaleToRequestedDimensions.simps) (simp add: Let_def)
  have by_height: "scaleToRequestedDimensions pf cfg cur \<lparr>Width = 0, Height = Height req\<rparr> =
      \<lparr>Width = getAspectScaledWidth pf (AspectRatio cur) (Height req), Height = Height req\<rparr>"
    using pos by (subst scaleToRequestedDimensions.simps) (simp add: Let_def)
  have by_width: "scaleToRequestedDimensions pf cfg cur \<lparr>Width = Width req, Height = 0\<rparr> =
      \<lparr>Width = Width req, Height = getAspectScaledHeight pf (AspectRatio cur) (Width req)\<rparr>"
    using pos by (subst scaleToRequestedDimensions.simps) (simp add: Let_def)
  have G: "scaleToRequestedDimensions pf cfg cur req =
      scaleToRequestedDimensions pf cfg cur \<lparr>Width = 0, Height = Height req\<rparr>"
    if "f64_gt (AspectRatio req) (AspectRatio cur)"
    using that unfold by (simp only: ra rb if_True)
  have L: "scaleToRequestedDimensions pf cfg cur req =
      scaleToRequestedDimensions pf cfg cur \<lparr>Width = Width req, Height = 0\<rparr>"
    if "f64_lt (AspectRatio req) (AspectRatio cur)"
  proof -
    have "f64_lt (Fin a) (Fin b)" using that by (simp only: ra rb)
    moreover from this have "\<not> f64_gt (Fin a) (Fin b)" using no_gt_lt by blast
    ultimately show ?thesis using unfold by (simp only: if_True if_False)
  qed
  have E: "scaleToRequestedDimensions pf cfg cur req = req"
    if "AspectRatio req = AspectRatio cur"
  proof -
    have "a = b" using that by (simp add: ra rb)
    then have "\<not> f64_gt (Fin a) (Fin b)" "\<not> f64_lt (Fin a) (Fin b)"
      by (simp_all add: f64_gt_def)
    then show ?thesis using unfold by (simp only: if_False)
  qed
  have T: "f64_gt (AspectRatio req) (AspectRatio cur) \<or>
      f64_lt (AspectRatio req) (AspectRatio cur) \<or> AspectRatio req = AspectRatio cur"
    unfolding ra rb by (rule f64_trichotomy)
  show ?thesis
  proof (intro conjI impI)
    assume g: "f64_gt (AspectRatio req) (AspectRatio cur)"
    show "scaleToRequestedDimensions pf cfg cur req =
        scaleToRequestedDimensions pf cfg cur \<lparr>Width = 0, Height = Height req\<rparr>"
      by (rule G [OF g])
    show "scaleToRequestedDimensions pf cfg cur req =
        \<lparr>Width = getAspectScaledWidth pf (AspectRatio cur) (Height req),
         Height = Height req\<rparr>"
      by (simp only: G [OF g] by_height)
  next
    assume l: "f64_lt (AspectRatio req) (AspectRatio cur)"
    show "scaleToRequestedDimensions pf cfg cur req =
        scaleToRequestedDimensions pf cfg cur \<lparr>Width = Width req, Height = 0\<rparr>"
      by (rule L [OF l])
    show "scaleToRequestedDimensions pf cfg cur req =
        \<lparr>Width = Width req,
         Height = getAspectScaledHeight pf (AspectRatio cur) (Width req)\<rparr>"
      by (simp only: L [OF l] by_width)
  next
    assume "AspectRatio req = AspectRatio cur"
    then show "scaleToRequestedDimensions pf cfg cur req = req"
      by (rule E)
  next
    show "f64_gt (AspectRatio req) (AspectRatio cur) \<or>
      f64_lt (AspectRatio req) (AspectRatio cur) \<or> AspectRatio req = AspectRatio cur"
      by (rule T)
  qed
qed

theorem scaleToRequestedDimensions_compares_ratios_witness:
  "Width \<lparr>Width = 2000, Height = 1000 :: uint64\<rparr> \<noteq> 0 \<and>
   Height \<lparr>Width = 2000 :: uint64, Height = 1000\<rparr> \<noteq> 0 \<and>
   Width \<lparr>Width = 400, Height = 400 :: uint64\<rparr> \<noteq> 0 \<and>
   Height \<lparr>Width = 400 :: uint64, Height = 400\<rparr> \<noteq> 0 \<and>
   MaintainAspectRatio example_config \<and>
   f64_lt (AspectRatio \<lparr>Width = 400, Height = 400\<rparr>)
          (AspectRatio \<lparr>Width = 2000, Height = 1000\<rparr>) \<and>
   scaleToRequestedDimensions example_platform example_config
       \<lparr>Width = 2000, Height = 1000\<rparr> \<lparr>Width = 400, Height = 400\<rparr> =
     \<lparr>Width = 400, Height = 200\<rparr>"
proof -
  let ?cur = "\<lparr>Width = 2000, Height = 1000\<rparr> :: ImageDimensions"
  let ?req = "\<lparr>Width = 400, Height = 400\<rparr> :: ImageDimensions"
  have h: "Width ?cur \<noteq> 0" "Height ?cur \<noteq> 0" "Width ?req \<noteq> 0" "Height ?req \<noteq> 0"
    "MaintainAspectRatio example_config"
    by (simp_all add: example_config_def)
  have r: "AspectRatio ?req = Fin 1" "AspectRatio ?cur = Fin 2"
    by (simp_all add: AspectRatio_def float64_of_uint64_def)
  have lt: "f64_lt (AspectRatio ?req) (AspectRatio ?cur)"
    by (simp add: r)
  have "scaleToRequestedDimensions example_platform example_config ?cur ?req =
      \<lparr>Width = Width ?req,
       Height = getAspectScaledHeight example_platform (AspectRatio ?cur) (Width ?req)\<rparr>"
    using scaleToRequestedDimensions_compares_ratios
      [OF h, of example_platform, THEN conjunct2, THEN conjunct1, THEN mp, OF lt]
    by (rule conjunct2)
  moreover have "\<lfloor>(401 :: rat) / 2\<rfloor> = 200"
    by (simp add: floor_eq_iff)
  then have "getAspectScaledHeight example_platform (AspectRatio ?cur) (Width ?req) = 200"
    by (simp add: r getAspectScaledHeight_def float64_of_uint64_def uint64_of_float64_def
        trunc_to_zero_def)
  ultimately show ?thesis using h lt by simp
qed

text \<open>
  C2. Maximum width 1000, no maximum height, maintain-aspect-ratio on, no defaults; an
  image of 2000 by 1000 and a request for width 1500 alone. The requested size resolves
  to 1500 by 750, the clamping step returns and turns that into 1000 by 500, and 1000 by
  500 is what \<^verbatim>\<open>getScaledDimensions\<close> returns.
\<close>

theorem getScaledDimensions_example:
  "scaleToRequestedDimensions pf
      (cfg\<lparr>MaxImageWidth := 1000, MaxImageHeight := 0, MaintainAspectRatio := True,
           DefaultImageWidth := 0, DefaultImageHeight := 0\<rparr>)
      \<lparr>Width = 2000, Height = 1000\<rparr> \<lparr>Width = 1500, Height = 0\<rparr> =
     \<lparr>Width = 1500, Height = 750\<rparr> \<and>
   getAspectScaledHeight pf (AspectRatio \<lparr>Width = 2000, Height = 1000\<rparr>) 1500 = 750 \<and>
   clampDimensionsToMaxima pf
      (cfg\<lparr>MaxImageWidth := 1000, MaxImageHeight := 0, MaintainAspectRatio := True,
           DefaultImageWidth := 0, DefaultImageHeight := 0\<rparr>)
      \<lparr>Width = 1500, Height = 750\<rparr> =
     Some \<lparr>Width = 1000, Height = 500\<rparr> \<and>
   getScaledDimensions pf
      (cfg\<lparr>MaxImageWidth := 1000, MaxImageHeight := 0, MaintainAspectRatio := True,
           DefaultImageWidth := 0, DefaultImageHeight := 0\<rparr>)
      \<lparr>Width = 2000, Height = 1000\<rparr>
      (request\<lparr>Dimensions := \<lparr>Width = 1500, Height = 0\<rparr>\<rparr>) =
     Some \<lparr>Width = 1000, Height = 500\<rparr>"
proof -
  let ?cfg = "cfg\<lparr>MaxImageWidth := 1000, MaxImageHeight := 0, MaintainAspectRatio := True,
           DefaultImageWidth := 0, DefaultImageHeight := 0\<rparr>"
  have r1: "AspectRatio \<lparr>Width = 2000, Height = 1000\<rparr> = Fin 2"
    by (simp add: AspectRatio_def float64_of_uint64_def)
  have r2: "AspectRatio \<lparr>Width = 1500, Height = 750\<rparr> = Fin 2"
    by (simp add: AspectRatio_def float64_of_uint64_def)
  have f1: "\<lfloor>(1501 :: rat) / 2\<rfloor> = 750" and f2: "\<lfloor>(1001 :: rat) / 2\<rfloor> = 500"
    by (simp_all add: floor_eq_iff)
  have h1: "getAspectScaledHeight pf (Fin 2) 1500 = 750"
    by (simp add: getAspectScaledHeight_def float64_of_uint64_def uint64_of_float64_def trunc_to_zero_def f1)
  have h2: "getAspectScaledHeight pf (Fin 2) 1000 = 500"
    by (simp add: getAspectScaledHeight_def float64_of_uint64_def uint64_of_float64_def trunc_to_zero_def f2)
  have s: "scaleToRequestedDimensions pf ?cfg
      \<lparr>Width = 2000, Height = 1000\<rparr> \<lparr>Width = 1500, Height = 0\<rparr> =
     \<lparr>Width = 1500, Height = 750\<rparr>"
    by (subst scaleToRequestedDimensions.simps) (simp add: Let_def r1 h1)
  have c2: "clampDimensionsToMaxima pf ?cfg \<lparr>Width = 1000, Height = 500\<rparr> =
     Some \<lparr>Width = 1000, Height = 500\<rparr>"
    by (subst clampDimensionsToMaxima.simps) simp
  have c: "clampDimensionsToMaxima pf ?cfg \<lparr>Width = 1500, Height = 750\<rparr> =
     Some \<lparr>Width = 1000, Height = 500\<rparr>"
    by (subst clampDimensionsToMaxima.simps) (simp add: Let_def r2 h2 c2)
  show ?thesis
    using s c h1 r1 by (simp add: getScaledDimensions_def)
qed

section \<open>Rounding at work\<close>

text \<open>
  An image of 700 by 1000 has the aspect ratio 0.7, which is not a binary64 number: the
  quotient is rounded down to \<open>3152519739159347 / 2\<^sup>5\<^sup>2\<close>. For the height 45 the product
  with that ratio is just below 31.5, and the scaled width is 31 and not 32.
\<close>

lemma f64_round_seven_tenths:
  "f64_round (7 / 10) = Fin (3152519739159347 / 4503599627370496)"
proof -
  have "round_half_even ((7 / 10) / 2 powi (- 1 - 52)) = 6305039478318694"
    by (rule round_half_even_unique) (simp_all add: power_int_minus)
  then have "round_rat (7 / 10) = of_int 6305039478318694 * 2 powi (- 1 - 52)"
    by (intro round_rat_eval) (simp_all add: power_int_minus)
  then have r: "round_rat (7 / 10) = 3152519739159347 / 4503599627370496"
    by (simp add: power_int_minus)
  show ?thesis by (simp add: f64_round_def Let_def r)
qed

lemma f64_round_twenty_ninths:
  "f64_round (20 / 9) = Fin (2501999792983609 / 1125899906842624)"
proof -
  have "round_half_even ((20 / 9) / 2 powi (1 - 52)) = 5003999585967218"
    by (rule round_half_even_unique) (simp_all add: power_int_minus)
  then have "round_rat (20 / 9) = of_int 5003999585967218 * 2 powi (1 - 52)"
    by (intro round_rat_eval) (simp_all add: power_int_minus)
  then have r: "round_rat (20 / 9) = 2501999792983609 / 1125899906842624"
    by (simp add: power_int_minus)
  show ?thesis by (simp add: f64_round_def Let_def r)
qed

lemma getAspectScaledWidth_rounded:
  "getAspectScaledWidth pf (Fin (3152519739159347 / 4503599627370496)) 45 = 31"
proof -
  let ?p = "45 * (3152519739159347 / 4503599627370496) :: rat"
  have "round_half_even (?p / 2 powi (4 - 52)) = 8866461766385663"
    by (rule round_half_even_unique) (simp_all add: power_int_minus)
  then have "round_rat ?p = of_int 8866461766385663 * 2 powi (4 - 52)"
    by (intro round_rat_eval) simp_all
  then have r: "round_rat ?p = 8866461766385663 / 281474976710656"
    by (simp add: power_int_minus)
  have "f64_round ?p = Fin (8866461766385663 / 281474976710656)"
    unfolding f64_round_def Let_def r by simp
  then have product: "f64_mul (Fin 45) (Fin (3152519739159347 / 4503599627370496)) =
      Fin (8866461766385663 / 281474976710656)"
    by (simp only: f64_mul.simps)
  have "f64_round (9007199254740991 / 281474976710656) =
      Fin (9007199254740991 / 281474976710656)"
    by (rule f64_round_exact [where m = 9007199254740991 and e = "- 48"])
      (simp_all add: power_int_minus)
  then have sum: "f64_add (Fin (8866461766385663 / 281474976710656)) (Fin (1 / 2)) =
      Fin (9007199254740991 / 281474976710656)"
    by simp
  have fl: "\<lfloor>9007199254740991 / 281474976710656 :: rat\<rfloor> = 31"
    by (simp add: floor_eq_iff)
  have conv: "float64_of_uint64 45 = Fin 45" by (simp add: float64_of_uint64_def)
  have "getAspectScaledWidth pf (Fin (3152519739159347 / 4503599627370496)) 45 =
      uint64_of_float64 pf (math_Floor (Fin (9007199254740991 / 281474976710656)))"
    by (simp only: getAspectScaledWidth_def conv product sum)
  then show ?thesis
    by (simp add: uint64_of_float64_def trunc_to_zero_def fl)
qed

lemma scaleToRequestedDimensions_rounded:
  assumes "MaintainAspectRatio cfg"
  shows "scaleToRequestedDimensions pf cfg \<lparr>Width = 700, Height = 1000\<rparr>
           \<lparr>Width = 100, Height = 45\<rparr> = \<lparr>Width = 31, Height = 45\<rparr>"
proof -
  have cur: "AspectRatio \<lparr>Width = 700, Height = 1000\<rparr> =
      Fin (3152519739159347 / 4503599627370496)"
    using f64_round_seven_tenths by (simp add: AspectRatio_def float64_of_uint64_def)
  have req: "AspectRatio \<lparr>Width = 100, Height = 45\<rparr> =
      Fin (2501999792983609 / 1125899906842624)"
    using f64_round_twenty_ninths by (simp add: AspectRatio_def float64_of_uint64_def)
  have by_height: "scaleToRequestedDimensions pf cfg \<lparr>Width = 700, Height = 1000\<rparr>
      \<lparr>Width = 0, Height = 45\<rparr> = \<lparr>Width = 31, Height = 45\<rparr>"
    by (subst scaleToRequestedDimensions.simps)
      (simp add: Let_def cur getAspectScaledWidth_rounded)
  show ?thesis
    using assms
    by (subst scaleToRequestedDimensions.simps) (simp add: Let_def cur req f64_gt_def by_height)
qed

text \<open>
  The crop stage on an image of 100 by 45, for the requested ratio of 700 by 1000 and the
  anchor \<open>x = 1\<close>: the crop is 31 wide and starts at 69.
\<close>

lemma cropWand_rectangle_rounded:
  assumes "Dimensions request = \<lparr>Width = 700, Height = 1000\<rparr>"
  shows "cropWand_rectangle pf \<lparr>Width = 100, Height = 45\<rparr> request \<lparr>X = Fin 1, Y = Fin 0\<rparr>
           = (31, 45, 69, 0)"
proof -
  have req: "AspectRatio \<lparr>Width = 700, Height = 1000\<rparr> =
      Fin (3152519739159347 / 4503599627370496)"
    using f64_round_seven_tenths by (simp add: AspectRatio_def float64_of_uint64_def)
  have cur: "AspectRatio \<lparr>Width = 100, Height = 45\<rparr> =
      Fin (2501999792983609 / 1125899906842624)"
    using f64_round_twenty_ninths by (simp add: AspectRatio_def float64_of_uint64_def)
  have fl: "\<lfloor>(139 :: rat) / 2\<rfloor> = 69" by (simp add: floor_eq_iff)
  have cl: "int_of_float64 pf (math_Floor (f64_add (Fin (1 / 2))
      (f64_mul (float64_of_uint64 69) (Fin 1)))) = 69"
    by (simp add: float64_of_uint64_def int_of_float64_def trunc_to_zero_def fl)
  show ?thesis
    by (simp add: cropWand_rectangle_def Let_def assms req cur f64_gt_def
        getAspectScaledWidth_rounded cl)
qed

section \<open>Properties of the clamping\<close>

text \<open>
  For sizes below \<open>2\<^sup>5\<^sup>1\<close> a dimension scaled down to a maximum does not exceed the
  dimension it replaces.
\<close>

lemma getAspectScaledHeight_le:
  assumes "Width d \<noteq> 0" and "Height d \<noteq> 0"
    and "uint (Width d) < 2 ^ 51" and "uint (Height d) < 2 ^ 51"
    and "m \<le> Width d"
  shows "uint (getAspectScaledHeight pf (AspectRatio d) m) \<le> uint (Height d)"
proof -
  define W H M where "W = uint (Width d)" and "H = uint (Height d)" and "M = uint m"
  have pos: "0 < W" "0 < H"
    using assms(1,2) by (simp_all add: W_def H_def word_greater_zero_iff [symmetric] word_less_def)
  have lt: "W < 2 ^ 51" "H < 2 ^ 51" using assms(3,4) by (simp_all add: W_def H_def)
  have M: "0 \<le> M" "M \<le> W" using assms(5) by (simp_all add: M_def W_def word_le_def)
  have s53: "uint (Width d) < 2 ^ 53" "uint (Height d) < 2 ^ 53" "uint m < 2 ^ 53"
    using lt M(2) by (simp_all add: W_def H_def M_def)
  have exact: "round_rat (of_int (uint (Width d))) = of_int W"
    "round_rat (of_int (uint (Height d))) = of_int H"
    "round_rat (of_int (uint m)) = of_int M"
    unfolding W_def H_def M_def
    by (rule float64_of_uint64_exact [OF s53(1)], rule float64_of_uint64_exact [OF s53(2)],
        rule float64_of_uint64_exact [OF s53(3)])
  obtain q where rq: "AspectRatio d = Fin q" and q_pos: "0 < q"
    using AspectRatio_positive [OF assms(1,2)] by blast
  have "AspectRatio d = Fin (round_rat (of_int W / of_int H))"
    using AspectRatio_Fin(1) [OF assms(2)] by (simp only: exact)
  then have q: "round_rat (of_int W / of_int H) \<le> q" by (simp add: rq)
  have "of_int M / q \<le> of_int W / q"
    using M(2) q_pos by (simp add: divide_le_cancel)
  also have "\<dots> \<le> of_int H + 1 / 4"
    using pos lt(2) q q_pos by (rule quotient_le_quarter)
  finally have r_le: "of_int M / q \<le> (of_int H :: rat) + 1 / 4" .
  have r_ge: "0 \<le> of_int M / q" using M(1) q_pos by simp
  obtain k where k: "math_Floor (f64_add (f64_round (of_int M / q)) (Fin (1 / 2)))
      = Fin (of_int k)" and k0: "0 \<le> k" and kH: "k \<le> H"
    using rounded_half_floor [OF r_ge r_le _ lt(2)] pos(2) by (metis less_imp_le)
  have "f64_div (Fin (of_int M)) (Fin q) = f64_round (of_int M / q)"
    using q_pos by simp
  then have "getAspectScaledHeight pf (AspectRatio d) m = uint64_of_float64 pf (Fin (of_int k))"
    using k by (simp only: getAspectScaledHeight_def rq float64_of_uint64_Fin(1) exact)
  moreover have "k < 2 ^ 64" using kH lt(2) by simp
  ultimately have "uint (getAspectScaledHeight pf (AspectRatio d) m) = k"
    using k0 by (simp only: uint64_of_float64_int)
  then show ?thesis using kH by (simp only: H_def)
qed

lemma getAspectScaledWidth_le:
  assumes "uint (Width d) < 2 ^ 51" and "uint (Height d) < 2 ^ 51" and "m < Height d"
  shows "uint (getAspectScaledWidth pf (AspectRatio d) m) \<le> uint (Width d)"
proof -
  define W H M where "W = uint (Width d)" and "H = uint (Height d)" and "M = uint m"
  have lt: "W < 2 ^ 51" "H < 2 ^ 51" using assms(1,2) by (simp_all add: W_def H_def)
  have M: "0 \<le> M" "M < H" using assms(3) by (simp_all add: M_def H_def word_less_def)
  have W0: "0 \<le> W" by (simp add: W_def)
  have nz: "Height d \<noteq> 0" using assms(3) by (auto simp: word_less_def)
  have s53: "uint (Width d) < 2 ^ 53" "uint (Height d) < 2 ^ 53" "uint m < 2 ^ 53"
    using lt M(2) by (simp_all add: W_def H_def M_def)
  have exact: "round_rat (of_int (uint (Width d))) = of_int W"
    "round_rat (of_int (uint (Height d))) = of_int H"
    "round_rat (of_int (uint m)) = of_int M"
    unfolding W_def H_def M_def
    by (rule float64_of_uint64_exact [OF s53(1)], rule float64_of_uint64_exact [OF s53(2)],
        rule float64_of_uint64_exact [OF s53(3)])
  define q where "q = round_rat (of_int W / of_int H)"
  have rq: "AspectRatio d = Fin q"
    using AspectRatio_Fin(1) [OF nz] by (simp only: exact q_def)
  have q0: "0 \<le> q" using AspectRatio_Fin(2) [OF nz] by (simp only: exact q_def)
  have "of_int M * q \<le> of_int W"
    unfolding q_def using W0 M lt(2) by (rule product_le_width)
  then have r_le: "of_int M * q \<le> (of_int W :: rat) + 1 / 4" by simp
  have r_ge: "0 \<le> of_int M * q" using M(1) q0 by simp
  obtain k where k: "math_Floor (f64_add (f64_round (of_int M * q)) (Fin (1 / 2)))
      = Fin (of_int k)" and k0: "0 \<le> k" and kW: "k \<le> W"
    using rounded_half_floor [OF r_ge r_le W0 lt(1)] by blast
  have "getAspectScaledWidth pf (AspectRatio d) m = uint64_of_float64 pf (Fin (of_int k))"
    using k by (simp only: getAspectScaledWidth_def rq float64_of_uint64_Fin(1) exact f64_mul.simps)
  moreover have "k < 2 ^ 64" using kW lt(1) by simp
  ultimately have "uint (getAspectScaledWidth pf (AspectRatio d) m) = k"
    using k0 by (simp only: uint64_of_float64_int)
  then show ?thesis using kW by (simp only: W_def)
qed

lemma getAspectScaledHeight_flat:
  assumes "Width d \<noteq> 0" and "Height d = 0"
  shows "getAspectScaledHeight pf (AspectRatio d) m = 0"
proof -
  have "AspectRatio d = PInf"
    using assms by (simp only: AspectRatio_def f64_div_by_zero if_False)
  then show ?thesis
    by (simp add: getAspectScaledHeight_def float64_of_uint64_Fin(1) uint64_of_float64_def
        trunc_to_zero_def floor_half del: of_int_uint)
qed

text \<open>
  So for sizes below \<open>2\<^sup>5\<^sup>1\<close> the clamping returns, after at most two recursive calls: a
  clamp of the width can only be followed by one clamp of the height, which does not bring
  the width above its maximum again.
\<close>

lemma clampDimensionsToMaxima_returns:
  assumes "uint (Width d) < 2 ^ 51" and "uint (Height d) < 2 ^ 51"
  shows "\<exists>r. clampDimensionsToMaxima pf cfg d = Some r"
proof -
  let ?wide = "\<lambda>e. 0 < MaxImageWidth cfg \<and> MaxImageWidth cfg < Width e"
  let ?high = "\<lambda>e. 0 < MaxImageHeight cfg \<and> MaxImageHeight cfg < Height e"
  have final: "clampDimensionsToMaxima pf cfg e = Some e" if "\<not> ?wide e" and "\<not> ?high e" for e
    by (subst clampDimensionsToMaxima.simps) (simp only: that simp_thms if_False)
  have height_step: "\<exists>r. clampDimensionsToMaxima pf cfg e = Some r"
    if small: "uint (Width e) < 2 ^ 51" "uint (Height e) < 2 ^ 51"
      and narrow: "\<not> ?wide e" and high: "?high e" for e
  proof -
    let ?w = "getAspectScaledWidth pf (AspectRatio e) (MaxImageHeight cfg)"
    let ?e' = "\<lparr>Width = ?w, Height = MaxImageHeight cfg\<rparr>"
    have step: "clampDimensionsToMaxima pf cfg e = clampDimensionsToMaxima pf cfg ?e'"
      by (subst clampDimensionsToMaxima.simps)
        (simp only: narrow high simp_thms if_True if_False Let_def)
    have "uint ?w \<le> uint (Width e)"
      using small high by (intro getAspectScaledWidth_le) simp_all
    then have "?w \<le> Width e" by (simp only: word_le_def)
    then have "\<not> ?wide ?e'" using narrow by auto
    moreover have "\<not> ?high ?e'" by simp
    ultimately have "clampDimensionsToMaxima pf cfg ?e' = Some ?e'" by (rule final)
    then show ?thesis unfolding step by blast
  qed
  show ?thesis
  proof (cases "?wide d")
    case True
    let ?h = "getAspectScaledHeight pf (AspectRatio d) (MaxImageWidth cfg)"
    let ?d' = "\<lparr>Width = MaxImageWidth cfg, Height = ?h\<rparr>"
    have step: "clampDimensionsToMaxima pf cfg d = clampDimensionsToMaxima pf cfg ?d'"
      by (subst clampDimensionsToMaxima.simps) (simp only: True simp_thms if_True Let_def)
    have wnz: "Width d \<noteq> 0" using True by (auto simp: word_less_def)
    have mle: "MaxImageWidth cfg \<le> Width d" using True by (simp add: word_le_def word_less_def)
    have "uint ?h \<le> uint (Height d)"
    proof (cases "Height d = 0")
      case True
      then show ?thesis using getAspectScaledHeight_flat [OF wnz True] by simp
    next
      case False
      show ?thesis using wnz False assms mle by (rule getAspectScaledHeight_le)
    qed
    then have h: "uint (Height ?d') < 2 ^ 51" using assms(2) by simp
    have "uint (MaxImageWidth cfg) < uint (Width d)" using True by (simp add: word_less_def)
    then have w: "uint (Width ?d') < 2 ^ 51" using assms(1) by simp
    have narrow: "\<not> ?wide ?d'" by simp
    have "\<exists>r. clampDimensionsToMaxima pf cfg ?d' = Some r"
    proof (cases "?high ?d'")
      case True
      with w h narrow show ?thesis by (intro height_step)
    next
      case False
      with narrow have "clampDimensionsToMaxima pf cfg ?d' = Some ?d'" by (rule final)
      then show ?thesis by blast
    qed
    then show ?thesis unfolding step .
  next
    case narrow: False
    show ?thesis
    proof (cases "?high d")
      case True
      with assms narrow show ?thesis by (intro height_step)
    next
      case False
      with narrow have "clampDimensionsToMaxima pf cfg d = Some d" by (rule final)
      then show ?thesis by blast
    qed
  qed
qed

text \<open>
  Above \<open>2\<^sup>5\<^sup>3\<close> the clamping can run forever. With both maxima \<open>2\<^sup>5\<^sup>3 + 3\<close>, which
  converts to the float \<open>2\<^sup>5\<^sup>3 + 4\<close>, the size \<open>2\<^sup>5\<^sup>3 + 4\<close> by \<open>2\<^sup>5\<^sup>3 + 4\<close> is clamped to
  \<open>2\<^sup>5\<^sup>3 + 3\<close> by \<open>2\<^sup>5\<^sup>3 + 4\<close>, that to \<open>2\<^sup>5\<^sup>3 + 4\<close> by \<open>2\<^sup>5\<^sup>3 + 3\<close>, and that to
  \<open>2\<^sup>5\<^sup>3 + 3\<close> by \<open>2\<^sup>5\<^sup>3 + 4\<close> again.
\<close>

lemma f64_round_above_2_53:
  "f64_round 9007199254740995 = Fin 9007199254740996"
  "f64_round 9007199254740996 = Fin 9007199254740996"
  "f64_round (18014398509481993 / 2) = Fin 9007199254740996"
proof -
  have "round_half_even (9007199254740995 / 2) = 4503599627370498"
    using round_half_even_tie [of "9007199254740995 / 2" 4503599627370497] by simp
  then have "round_half_even (9007199254740995 / 2 powi (53 - 52)) = 4503599627370498"
    by simp
  then have "round_rat 9007199254740995 = of_int 4503599627370498 * 2 powi (53 - 52)"
    by (intro round_rat_eval) simp_all
  then show "f64_round 9007199254740995 = Fin 9007199254740996"
    by (simp add: f64_round_def Let_def)
  show "f64_round 9007199254740996 = Fin 9007199254740996"
    by (rule f64_round_exact [where m = 4503599627370498 and e = 1]) simp_all
  have "round_half_even (18014398509481993 / 2 / 2 powi (53 - 52)) = 4503599627370498"
    by (rule round_half_even_unique) simp_all
  then have "round_rat (18014398509481993 / 2) = of_int 4503599627370498 * 2 powi (53 - 52)"
    by (intro round_rat_eval) simp_all
  then show "f64_round (18014398509481993 / 2) = Fin 9007199254740996"
    by (simp add: f64_round_def Let_def)
qed

lemma scaled_above_2_53:
  "getAspectScaledHeight pf (Fin 1) 9007199254740995 = 9007199254740996"
  "getAspectScaledWidth pf (Fin 1) 9007199254740995 = 9007199254740996"
  by (simp_all add: getAspectScaledHeight_def getAspectScaledWidth_def float64_of_uint64_def
      f64_round_above_2_53 uint64_of_float64_def trunc_to_zero_def)

lemma AspectRatio_above_2_53:
  "AspectRatio \<lparr>Width = 9007199254740996, Height = 9007199254740996\<rparr> = Fin 1"
  "AspectRatio \<lparr>Width = 9007199254740995, Height = 9007199254740996\<rparr> = Fin 1"
  "AspectRatio \<lparr>Width = 9007199254740996, Height = 9007199254740995\<rparr> = Fin 1"
  by (simp_all add: AspectRatio_def float64_of_uint64_def f64_round_above_2_53)

lemma clampDimensionsToMaxima_cycle:
  assumes "clampDimensionsToMaxima pf cfg d = Some r"
  shows "MaxImageWidth cfg = 9007199254740995 \<longrightarrow> MaxImageHeight cfg = 9007199254740995 \<longrightarrow>
      d \<noteq> \<lparr>Width = 9007199254740996, Height = 9007199254740996\<rparr> \<and>
      d \<noteq> \<lparr>Width = 9007199254740995, Height = 9007199254740996\<rparr> \<and>
      d \<noteq> \<lparr>Width = 9007199254740996, Height = 9007199254740995\<rparr>"
proof (rule clampDimensionsToMaxima.raw_induct
    [where P = "\<lambda>pf cfg d r.
       MaxImageWidth cfg = 9007199254740995 \<longrightarrow> MaxImageHeight cfg = 9007199254740995 \<longrightarrow>
       d \<noteq> \<lparr>Width = 9007199254740996, Height = 9007199254740996\<rparr> \<and>
       d \<noteq> \<lparr>Width = 9007199254740995, Height = 9007199254740996\<rparr> \<and>
       d \<noteq> \<lparr>Width = 9007199254740996, Height = 9007199254740995\<rparr>", OF _ assms],
    goal_cases)
  case (1 clamp pf cfg d r)
  show ?case
  proof (intro impI)
    assume mw: "MaxImageWidth cfg = 9007199254740995"
      and mh: "MaxImageHeight cfg = 9007199254740995"
    let ?A = "\<lparr>Width = 9007199254740996, Height = 9007199254740996\<rparr> :: ImageDimensions"
    let ?B = "\<lparr>Width = 9007199254740995, Height = 9007199254740996\<rparr> :: ImageDimensions"
    let ?C = "\<lparr>Width = 9007199254740996, Height = 9007199254740995\<rparr> :: ImageDimensions"
    have notB: "clamp pf cfg ?B \<noteq> Some r" using 1(1) [of pf cfg ?B r] mw mh by auto
    have notC: "clamp pf cfg ?C \<noteq> Some r" using 1(1) [of pf cfg ?C r] mw mh by auto
    have "d \<noteq> ?A"
    proof
      assume "d = ?A"
      with 1(2) have "clamp pf cfg ?B = Some r"
        by (simp add: mw mh Let_def AspectRatio_above_2_53 scaled_above_2_53)
      with notB show False ..
    qed
    moreover have "d \<noteq> ?B"
    proof
      assume "d = ?B"
      with 1(2) have "clamp pf cfg ?C = Some r"
        by (simp add: mw mh Let_def AspectRatio_above_2_53 scaled_above_2_53)
      with notC show False ..
    qed
    moreover have "d \<noteq> ?C"
    proof
      assume "d = ?C"
      with 1(2) have "clamp pf cfg ?B = Some r"
        by (simp add: mw mh Let_def AspectRatio_above_2_53 scaled_above_2_53)
      with notB show False ..
    qed
    ultimately show "d \<noteq> ?A \<and> d \<noteq> ?B \<and> d \<noteq> ?C" by simp
  qed
qed

lemma clampDimensionsToMaxima_diverges:
  "clampDimensionsToMaxima pf
     (cfg\<lparr>MaxImageWidth := 9007199254740995, MaxImageHeight := 9007199254740995\<rparr>)
     \<lparr>Width = 9007199254740996, Height = 9007199254740996\<rparr> = None"
proof (cases "clampDimensionsToMaxima pf
     (cfg\<lparr>MaxImageWidth := 9007199254740995, MaxImageHeight := 9007199254740995\<rparr>)
     \<lparr>Width = 9007199254740996, Height = 9007199254740996\<rparr>")
  case None
  then show ?thesis .
next
  case (Some r)
  from clampDimensionsToMaxima_cycle [OF Some] show ?thesis by simp
qed

text \<open>
  C3. Clamping to the configured maxima is idempotent: whenever clamping returns a size,
  clamping that size again, with the same maxima, returns it unchanged.
\<close>

theorem clampDimensionsToMaxima_idempotent:
  assumes "clampDimensionsToMaxima pf cfg d = Some r"
  shows "clampDimensionsToMaxima pf cfg r = Some r"
proof (rule clampDimensionsToMaxima.raw_induct
    [where P = "\<lambda>pf cfg d r. clampDimensionsToMaxima pf cfg r = Some r", OF _ assms],
    goal_cases)
  case (1 clamp pf cfg d r)
  show ?case
  proof (cases "0 < MaxImageWidth cfg \<and> MaxImageWidth cfg < Width d")
    case True
    with 1(2) have "clamp pf cfg
        \<lparr>Width = MaxImageWidth cfg,
         Height = getAspectScaledHeight pf (AspectRatio d) (MaxImageWidth cfg)\<rparr> = Some r"
      by (simp only: simp_thms if_True Let_def)
    then show ?thesis by (rule 1(1))
  next
    case narrow: False
    show ?thesis
    proof (cases "0 < MaxImageHeight cfg \<and> MaxImageHeight cfg < Height d")
      case True
      with 1(2) narrow have "clamp pf cfg
          \<lparr>Width = getAspectScaledWidth pf (AspectRatio d) (MaxImageHeight cfg),
           Height = MaxImageHeight cfg\<rparr> = Some r"
        by (simp only: simp_thms if_True if_False Let_def)
      then show ?thesis by (rule 1(1))
    next
      case False
      with 1(2) narrow have "r = d"
        by (simp only: simp_thms if_False option.inject)
      moreover have "clampDimensionsToMaxima pf cfg d = Some d"
        by (subst clampDimensionsToMaxima.simps) (simp only: narrow False simp_thms if_False)
      ultimately show ?thesis by simp
    qed
  qed
qed

theorem clampDimensionsToMaxima_idempotent_witness:
  "clampDimensionsToMaxima example_platform example_config \<lparr>Width = 1500, Height = 750\<rparr> =
     Some \<lparr>Width = 1000, Height = 500\<rparr> \<and>
   clampDimensionsToMaxima example_platform example_config \<lparr>Width = 1000, Height = 500\<rparr> =
     Some \<lparr>Width = 1000, Height = 500\<rparr>"
proof -
  have r: "AspectRatio \<lparr>Width = 1500, Height = 750\<rparr> = Fin 2"
    by (simp add: AspectRatio_def float64_of_uint64_def)
  have f: "\<lfloor>(1001 :: rat) / 2\<rfloor> = 500"
    by (simp add: floor_eq_iff)
  have h: "getAspectScaledHeight example_platform (Fin 2) 1000 = 500"
    by (simp add: getAspectScaledHeight_def float64_of_uint64_def uint64_of_float64_def
        trunc_to_zero_def f)
  have "clampDimensionsToMaxima example_platform example_config
      \<lparr>Width = 1500, Height = 750\<rparr> =
    clampDimensionsToMaxima example_platform example_config \<lparr>Width = 1000, Height = 500\<rparr>"
    by (subst clampDimensionsToMaxima.simps) (simp add: Let_def r h example_config_def)
  moreover have c: "clampDimensionsToMaxima example_platform example_config
      \<lparr>Width = 1000, Height = 500\<rparr> = Some \<lparr>Width = 1000, Height = 500\<rparr>"
    by (subst clampDimensionsToMaxima.simps) (simp add: example_config_def)
  ultimately have "clampDimensionsToMaxima example_platform example_config
      \<lparr>Width = 1500, Height = 750\<rparr> = Some \<lparr>Width = 1000, Height = 500\<rparr>"
    by simp
  then show ?thesis
    using clampDimensionsToMaxima_idempotent
      [of example_platform example_config "\<lparr>Width = 1500, Height = 750\<rparr>"
          "\<lparr>Width = 1000, Height = 500\<rparr>"]
    by simp
qed

section \<open>Properties of the crop stage\<close>

text \<open>
  The offset computed from a remaining extent \<open>d\<close> below \<open>2\<^sup>5\<^sup>1\<close> and an anchor in
  \<open>[0, 1]\<close> lies between 0 and \<open>d\<close>.
\<close>

lemma crop_offset_bounds:
  assumes "0 \<le> x" and "x \<le> 1" and "uint d < 2 ^ 51"
  shows "sint (int_of_float64 pf (math_Floor (f64_add (Fin (1 / 2))
           (f64_mul (float64_of_uint64 d) (Fin x))))) \<le> uint d"
    and "0 \<le> sint (int_of_float64 pf (math_Floor (f64_add (Fin (1 / 2))
           (f64_mul (float64_of_uint64 d) (Fin x)))))"
proof -
  define D where "D = uint d"
  have D: "0 \<le> D" "D < 2 ^ 51" using assms(3) by (simp_all add: D_def)
  have "uint d < 2 ^ 53" using assms(3) by simp
  then have "round_rat (of_int (uint d)) = of_int (uint d)" by (rule float64_of_uint64_exact)
  then have conv: "float64_of_uint64 d = Fin (of_int D)"
    by (simp only: float64_of_uint64_Fin(1) D_def)
  have r0: "0 \<le> of_int D * x" using D(1) assms(1) by simp
  have "of_int D * x \<le> of_int D * 1"
    using D(1) assms(2) by (intro mult_left_mono) simp_all
  then have r1: "of_int D * x \<le> of_int D + 1 / 4" by simp
  obtain k where k: "math_Floor (f64_add (Fin (1 / 2)) (f64_round (of_int D * x))) = Fin (of_int k)"
    and k0: "0 \<le> k" and kD: "k \<le> D"
    using rounded_half_floor [OF r0 r1 D] by blast
  have val: "math_Floor (f64_add (Fin (1 / 2)) (f64_mul (float64_of_uint64 d) (Fin x)))
      = Fin (of_int k)"
    using k by (simp only: conv f64_mul.simps)
  have "sint (int_of_float64 pf (Fin (of_int k))) = k"
    using k0 kD D(2) by (intro int_of_float64_int) simp_all
  then show "sint (int_of_float64 pf (math_Floor (f64_add (Fin (1 / 2))
           (f64_mul (float64_of_uint64 d) (Fin x))))) \<le> uint d"
    and "0 \<le> sint (int_of_float64 pf (math_Floor (f64_add (Fin (1 / 2))
           (f64_mul (float64_of_uint64 d) (Fin x)))))"
    using k0 kD by (simp_all only: val D_def)
qed

lemma cropWand_rectangle_bounds:
  assumes cur: "Width cur \<noteq> 0" "Height cur \<noteq> 0"
    and small: "uint (Width cur) < 2 ^ 51" "uint (Height cur) < 2 ^ 51"
    and req: "Width (Dimensions request) \<noteq> 0" "Height (Dimensions request) \<noteq> 0"
    and ax: "X crop = Fin x" "0 \<le> x" "x \<le> 1"
    and ay: "Y crop = Fin y" "0 \<le> y" "y \<le> 1"
    and rect: "cropWand_rectangle pf cur request crop = (cropWidth, cropHeight, cropLeft, cropTop)"
  shows "sint cropLeft + uint cropWidth \<le> uint (Width cur) \<and>
      sint cropTop + uint cropHeight \<le> uint (Height cur) \<and>
      (if f64_gt (AspectRatio cur) (AspectRatio (Dimensions request))
       then cropHeight = Height cur \<and> cropTop = 0
       else cropWidth = Width cur \<and> cropLeft = 0) \<and>
      0 \<le> sint cropLeft \<and> 0 \<le> sint cropTop"
proof -
  define W H where "W = uint (Width cur)" and "H = uint (Height cur)"
  define a :: rat where "a = round_rat (of_int W / of_int H)"
  have pos: "0 < W" "0 < H"
    using cur by (simp_all add: W_def H_def word_greater_zero_iff [symmetric] word_less_def)
  have lt: "W < 2 ^ 51" "H < 2 ^ 51" using small by (simp_all add: W_def H_def)
  have s53: "uint (Width cur) < 2 ^ 53" "uint (Height cur) < 2 ^ 53" using small by simp_all
  have exact: "round_rat (of_int (uint (Width cur))) = of_int W"
    "round_rat (of_int (uint (Height cur))) = of_int H"
    unfolding W_def H_def
    by (rule float64_of_uint64_exact [OF s53(1)], rule float64_of_uint64_exact [OF s53(2)])
  have fW: "float64_of_uint64 (Width cur) = Fin (of_int W)"
    and fH: "float64_of_uint64 (Height cur) = Fin (of_int H)"
    by (simp_all only: float64_of_uint64_Fin(1) exact)
  have ra: "AspectRatio cur = Fin a"
    using AspectRatio_Fin(1) [OF cur(2)] by (simp only: exact a_def)
  obtain q where rq: "AspectRatio (Dimensions request) = Fin q"
    and q_pos: "0 < q" and q_rep: "round_rat q = q"
    using AspectRatio_positive [OF req] by blast
  have t_pos: "0 < (of_int W :: rat) / of_int H" using pos by simp
  have Wr: "(of_int W :: rat) \<le> of_int W + 1 / 4" by simp
  show ?thesis
  proof (cases "q < a")
    case True
    then have wide: "f64_gt (AspectRatio cur) (AspectRatio (Dimensions request))"
      by (simp add: ra rq f64_gt_def)
    have "q \<le> of_int W / of_int H"
    proof (rule ccontr)
      assume "\<not> q \<le> of_int W / of_int H"
      then have "of_int W / of_int H \<le> q" by simp
      with t_pos have "round_rat (of_int W / of_int H) \<le> round_rat q"
        by (intro round_rat_mono) simp_all
      with True show False by (simp add: a_def q_rep)
    qed
    then have "of_int H * q \<le> (of_int W :: rat)"
      using pos by (simp add: le_divide_eq mult.commute)
    then have r_le: "of_int H * q \<le> (of_int W :: rat) + 1 / 4" by simp
    have r_ge: "0 \<le> of_int H * q" using pos q_pos by simp
    obtain k where k: "math_Floor (f64_add (f64_round (of_int H * q)) (Fin (1 / 2)))
        = Fin (of_int k)" and k0: "0 \<le> k" and kW: "k \<le> W"
      using rounded_half_floor [OF r_ge r_le _ lt(1)] pos(1) by (metis less_imp_le)
    have cw: "cropWidth = getAspectScaledWidth pf (Fin q) (Height cur)"
      and ch: "cropHeight = Height cur" and ct: "cropTop = 0"
      and cl: "cropLeft = int_of_float64 pf (math_Floor (f64_add (Fin (1 / 2))
                 (f64_mul (float64_of_uint64 (Width cur - cropWidth)) (Fin x))))"
      using rect wide by (auto simp: cropWand_rectangle_def Let_def rq ax(1))
    have "cropWidth = uint64_of_float64 pf (Fin (of_int k))"
      using k by (simp only: cw getAspectScaledWidth_def fH f64_mul.simps)
    moreover have "k < 2 ^ 64" using kW lt(1) by simp
    ultimately have cwk: "uint cropWidth = k"
      using k0 by (simp only: uint64_of_float64_int)
    then have cw_le: "uint cropWidth \<le> uint (Width cur)" using kW by (simp only: W_def)
    then have sub: "uint (Width cur - cropWidth) = uint (Width cur) - uint cropWidth"
      by (simp add: uint_sub_lem [symmetric])
    then have "uint (Width cur - cropWidth) < 2 ^ 51"
      using small(1) cwk k0 by linarith
    then have off: "sint cropLeft \<le> uint (Width cur - cropWidth)" "0 \<le> sint cropLeft"
      unfolding cl by (rule crop_offset_bounds [OF ax(2,3)])+
    with sub have fit: "sint cropLeft + uint cropWidth \<le> uint (Width cur)" by linarith
    with off(2) show ?thesis using wide ch ct by simp
  next
    case False
    then have narrow: "\<not> f64_gt (AspectRatio cur) (AspectRatio (Dimensions request))"
      by (simp add: ra rq f64_gt_def)
    have "round_rat (of_int W / of_int H) \<le> q" using False by (simp add: a_def)
    then have r_le: "of_int W / q \<le> (of_int H :: rat) + 1 / 4"
      using q_pos by (intro quotient_le_quarter [OF pos lt(2)]) simp_all
    have r_ge: "0 \<le> of_int W / q" using pos q_pos by simp
    have q_nz: "q \<noteq> 0" using q_pos by simp
    obtain k where k: "math_Floor (f64_add (f64_round (of_int W / q)) (Fin (1 / 2)))
        = Fin (of_int k)" and k0: "0 \<le> k" and kH: "k \<le> H"
      using rounded_half_floor [OF r_ge r_le _ lt(2)] pos(2) by (metis less_imp_le)
    have cw: "cropWidth = Width cur" and cl: "cropLeft = 0"
      and ch: "cropHeight = getAspectScaledHeight pf (Fin q) (Width cur)"
      and ct: "cropTop = int_of_float64 pf (math_Floor (f64_add (Fin (1 / 2))
                 (f64_mul (float64_of_uint64 (Height cur - cropHeight)) (Fin y))))"
      using rect narrow by (auto simp: cropWand_rectangle_def Let_def rq ay(1))
    have "f64_div (Fin (of_int W)) (Fin q) = f64_round (of_int W / q)"
      using q_nz by simp
    then have "cropHeight = uint64_of_float64 pf (Fin (of_int k))"
      using k by (simp only: ch getAspectScaledHeight_def fW)
    moreover have "k < 2 ^ 64" using kH lt(2) by simp
    ultimately have chk: "uint cropHeight = k"
      using k0 by (simp only: uint64_of_float64_int)
    then have ch_le: "uint cropHeight \<le> uint (Height cur)" using kH by (simp only: H_def)
    then have sub: "uint (Height cur - cropHeight) = uint (Height cur) - uint cropHeight"
      by (simp add: uint_sub_lem [symmetric])
    then have "uint (Height cur - cropHeight) < 2 ^ 51"
      using small(2) chk k0 by linarith
    then have off: "sint cropTop \<le> uint (Height cur - cropHeight)" "0 \<le> sint cropTop"
      unfolding ct by (rule crop_offset_bounds [OF ay(2,3)])+
    with sub have fit: "sint cropTop + uint cropHeight \<le> uint (Height cur)" by linarith
    with off(2) show ?thesis using narrow cw cl by simp
  qed
qed

text \<open>
  C4. For a current image with nonzero width and height, both below \<open>2\<^sup>5\<^sup>1\<close>, requested
  dimensions that are both nonzero and a crop anchor with \<open>x\<close> and \<open>y\<close> in \<open>[0, 1]\<close>,
  the rectangle that \<^verbatim>\<open>cropWand\<close> hands to \<^verbatim>\<open>CropImage\<close> stays within the source image:
  left offset plus crop width is at most the current width, top offset plus crop height is
  at most the current height; the dimension that is not cropped keeps its full size, with
  offset 0; and no offset is negative.
\<close>

theorem cropWand_within_source:
  assumes "Crop request = Some crop"
    and "GetImageWidth lib wand \<noteq> 0" and "GetImageHeight lib wand \<noteq> 0"
    and "uint (GetImageWidth lib wand) < 2 ^ 51" and "uint (GetImageHeight lib wand) < 2 ^ 51"
    and "Width (Dimensions request) \<noteq> 0" and "Height (Dimensions request) \<noteq> 0"
    and "X crop = Fin x" and "0 \<le> x" and "x \<le> 1"
    and "Y crop = Fin y" and "0 \<le> y" and "y \<le> 1"
    and "currentDimensions =
           \<lparr>Width = GetImageWidth lib wand, Height = GetImageHeight lib wand\<rparr>"
  shows "case cropWand_rectangle pf currentDimensions request crop of
           (cropWidth, cropHeight, cropLeft, cropTop) \<Rightarrow>
             cropWand pf lib wand request =
               (case CropImage lib wand cropWidth cropHeight cropLeft cropTop of
                  (err, wand') \<Rightarrow> (err, True, wand')) \<and>
             sint cropLeft + uint cropWidth \<le> uint (Width currentDimensions) \<and>
             sint cropTop + uint cropHeight \<le> uint (Height currentDimensions) \<and>
             (if f64_gt (AspectRatio currentDimensions) (AspectRatio (Dimensions request))
              then cropHeight = Height currentDimensions \<and> cropTop = 0
              else cropWidth = Width currentDimensions \<and> cropLeft = 0) \<and>
             0 \<le> sint cropLeft \<and> 0 \<le> sint cropTop"
proof -
  obtain cropWidth cropHeight cropLeft cropTop
    where rect: "cropWand_rectangle pf currentDimensions request crop =
      (cropWidth, cropHeight, cropLeft, cropTop)"
    by (cases "cropWand_rectangle pf currentDimensions request crop") auto
  have cur: "Width currentDimensions \<noteq> 0" "Height currentDimensions \<noteq> 0"
    "uint (Width currentDimensions) < 2 ^ 51" "uint (Height currentDimensions) < 2 ^ 51"
    using assms(2-5,14) by simp_all
  have call: "cropWand pf lib wand request =
      (case CropImage lib wand cropWidth cropHeight cropLeft cropTop of
         (err, wand') \<Rightarrow> (err, True, wand'))"
    using assms(1) rect by (simp add: cropWand_def Let_def assms(14) [symmetric])
  show ?thesis
    using cropWand_rectangle_bounds [OF cur assms(6-13) rect] call
    by (simp only: rect prod.case, blast)
qed

theorem cropWand_within_source_witness:
  "Crop \<lparr>Dimensions = \<lparr>Width = 400, Height = 400\<rparr>, BlurRadius = Fin 0, GrayScale = False,
         Crop = Some \<lparr>X = Fin (1 / 2), Y = Fin (1 / 2)\<rparr>\<rparr>
     = Some \<lparr>X = Fin (1 / 2), Y = Fin (1 / 2)\<rparr> \<and>
   GetImageWidth example_imagick example_image_wand = 2000 \<and>
   GetImageHeight example_imagick example_image_wand = 1000 \<and>
   uint (2000 :: uint64) < 2 ^ 51 \<and> uint (1000 :: uint64) < 2 ^ 51 \<and>
   (0 :: rat) \<le> 1 / 2 \<and> (1 / 2 :: rat) \<le> 1 \<and>
   cropWand_rectangle example_platform \<lparr>Width = 2000, Height = 1000\<rparr>
       \<lparr>Dimensions = \<lparr>Width = 400, Height = 400\<rparr>, BlurRadius = Fin 0, GrayScale = False,
        Crop = Some \<lparr>X = Fin (1 / 2), Y = Fin (1 / 2)\<rparr>\<rparr>
       \<lparr>X = Fin (1 / 2), Y = Fin (1 / 2)\<rparr>
     = (1000, 1000, 500, 0) \<and>
   sint (500 :: go_int) + uint (1000 :: uint64) \<le> uint (2000 :: uint64) \<and>
   sint (0 :: go_int) + uint (1000 :: uint64) \<le> uint (1000 :: uint64)"
proof -
  let ?crop = "\<lparr>X = Fin (1 / 2), Y = Fin (1 / 2)\<rparr>"
  let ?request = "\<lparr>Dimensions = \<lparr>Width = 400, Height = 400\<rparr>, BlurRadius = Fin 0,
      GrayScale = False, Crop = Some ?crop\<rparr>"
  let ?cur = "\<lparr>Width = 2000, Height = 1000\<rparr> :: ImageDimensions"
  have w: "GetImageWidth example_imagick example_image_wand = 2000"
    and h: "GetImageHeight example_imagick example_image_wand = 1000"
    by (simp_all add: example_imagick_def example_image_wand_def)
  have r: "AspectRatio \<lparr>Width = 400, Height = 400\<rparr> = Fin 1" "AspectRatio ?cur = Fin 2"
    by (simp_all add: AspectRatio_def float64_of_uint64_def)
  have fl: "\<lfloor>(2001 :: rat) / 2\<rfloor> = 1000" "\<lfloor>(1001 :: rat) / 2\<rfloor> = 500"
    by (simp_all add: floor_eq_iff)
  have cw: "getAspectScaledWidth example_platform (Fin 1) 1000 = 1000"
    by (simp add: getAspectScaledWidth_def float64_of_uint64_def uint64_of_float64_def
        trunc_to_zero_def fl)
  have cl: "int_of_float64 example_platform (math_Floor (f64_add (Fin (1 / 2))
      (f64_mul (float64_of_uint64 1000) (Fin (1 / 2))))) = 500"
    by (simp add: float64_of_uint64_def int_of_float64_def trunc_to_zero_def fl)
  have rect: "cropWand_rectangle example_platform ?cur ?request ?crop = (1000, 1000, 500, 0)"
    by (simp add: cropWand_rectangle_def Let_def r f64_gt_def cw cl)
  have "case cropWand_rectangle example_platform ?cur ?request ?crop of
      (cropWidth, cropHeight, cropLeft, cropTop) \<Rightarrow>
        cropWand example_platform example_imagick example_image_wand ?request =
          (case CropImage example_imagick example_image_wand cropWidth cropHeight cropLeft
                  cropTop of (err, wand') \<Rightarrow> (err, True, wand')) \<and>
        sint cropLeft + uint cropWidth \<le> uint (Width ?cur) \<and>
        sint cropTop + uint cropHeight \<le> uint (Height ?cur) \<and>
        (if f64_gt (AspectRatio ?cur) (AspectRatio (Dimensions ?request))
         then cropHeight = Height ?cur \<and> cropTop = 0
         else cropWidth = Width ?cur \<and> cropLeft = 0) \<and>
        0 \<le> sint cropLeft \<and> 0 \<le> sint cropTop"
    by (rule cropWand_within_source [where x = "1 / 2" and y = "1 / 2"])
      (simp_all add: w h)
  then have "sint (500 :: go_int) + uint (1000 :: uint64) \<le> uint (2000 :: uint64) \<and>
      sint (0 :: go_int) + uint (1000 :: uint64) \<le> uint (1000 :: uint64)"
    unfolding rect by simp
  then show ?thesis
    using w h rect by simp
qed

text \<open>
  Without the bound on the size the rectangle can leave the image. An image of
  \<open>2\<^sup>5\<^sup>2 + 2\<close> by 1, a request for 1 by 1 and the anchor \<open>x = 1\<close>: the crop width
  is 1, the remaining width \<open>2\<^sup>5\<^sup>2 + 1\<close>, and \<open>0.5 + (2\<^sup>5\<^sup>2 + 1)\<close> lies halfway between
  two binary64 numbers and is rounded to the even one, \<open>2\<^sup>5\<^sup>2 + 2\<close>. The left offset is
  the full width of the image, and offset plus crop width exceeds it by one.
\<close>

theorem cropWand_beyond_source_counterexample:
  "cropWand_rectangle example_platform \<lparr>Width = 4503599627370498, Height = 1\<rparr>
       \<lparr>Dimensions = \<lparr>Width = 1, Height = 1\<rparr>, BlurRadius = Fin 0, GrayScale = False,
        Crop = Some \<lparr>X = Fin 1, Y = Fin 0\<rparr>\<rparr>
       \<lparr>X = Fin 1, Y = Fin 0\<rparr>
     = (1, 1, 4503599627370498, 0) \<and>
   sint (4503599627370498 :: go_int) + uint (1 :: uint64) = 4503599627370499 \<and>
   uint (4503599627370498 :: uint64) = 4503599627370498 \<and>
   \<not> sint (4503599627370498 :: go_int) + uint (1 :: uint64)
       \<le> uint (Width \<lparr>Width = 4503599627370498, Height = 1\<rparr>)"
proof -
  let ?cur = "\<lparr>Width = 4503599627370498, Height = 1\<rparr> :: ImageDimensions"
  have r: "AspectRatio \<lparr>Width = 1, Height = 1\<rparr> = Fin 1"
    "AspectRatio ?cur = Fin 4503599627370498"
    by (simp_all add: AspectRatio_def float64_of_uint64_def)
  have fl: "\<lfloor>(3 :: rat) / 2\<rfloor> = 1" by (simp add: floor_eq_iff)
  have cw: "getAspectScaledWidth example_platform (Fin 1) 1 = 1"
    by (simp add: getAspectScaledWidth_def float64_of_uint64_def uint64_of_float64_def
        trunc_to_zero_def fl)
  have "round_half_even (9007199254740995 / 2) = 4503599627370498"
    using round_half_even_tie [of "9007199254740995 / 2" 4503599627370497] by simp
  then have "round_rat (9007199254740995 / 2) = of_int 4503599627370498 * 2 powi (52 - 52)"
    by (intro round_rat_eval) simp_all
  then have tie: "f64_round (9007199254740995 / 2) = Fin 4503599627370498"
    by (simp add: f64_round_def Let_def)
  have conv: "float64_of_uint64 4503599627370497 = Fin 4503599627370497"
    by (simp add: float64_of_uint64_def)
  have cl: "int_of_float64 example_platform (math_Floor (f64_add (Fin (1 / 2))
      (f64_mul (float64_of_uint64 4503599627370497) (Fin 1)))) = 4503599627370498"
    unfolding conv
    by (simp add: tie int_of_float64_def trunc_to_zero_def)
  have rect: "cropWand_rectangle example_platform ?cur
       \<lparr>Dimensions = \<lparr>Width = 1, Height = 1\<rparr>, BlurRadius = Fin 0, GrayScale = False,
        Crop = Some \<lparr>X = Fin 1, Y = Fin 0\<rparr>\<rparr>
       \<lparr>X = Fin 1, Y = Fin 0\<rparr> = (1, 1, 4503599627370498, 0)"
    by (simp add: cropWand_rectangle_def Let_def r f64_gt_def cw cl)
  have s: "sint (4503599627370498 :: go_int) = 4503599627370498"
    using sint_word_of_int_64 [of 4503599627370498] by simp
  have u: "uint (4503599627370498 :: uint64) = 4503599627370498"
    using uint_word_of_int_64 [of 4503599627370498] by simp
  show ?thesis
    unfolding rect by (simp add: s u)
qed

section \<open>Properties of the pipeline\<close>

text \<open>
  C6. When no stage modifies the image (no crop option, the resolved target size equal to
  the current size, a blur radius of zero, grayscale neither requested nor forced by the
  configuration), \<^verbatim>\<open>ProcessImage\<close> returns, succeeds and gives the bytes of the input
  image unchanged, not the re-encoded blob of the wand.
\<close>

theorem ProcessImage_passthrough:
  assumes "Crop request = None"
    and "wand = snd (ReadImageBlob lib (NewMagickWand lib) (Bytes img))"
    and "currentDimensions =
           \<lparr>Width = GetImageWidth lib wand, Height = GetImageHeight lib wand\<rparr>"
    and "getScaledDimensions pf cfg currentDimensions request = Some currentDimensions"
    and "f64_eq (BlurRadius request) (Fin 0)"
    and "\<not> GrayScale request" and "\<not> GrayscaleByDefault cfg"
  shows "ProcessImage pf lib cfg img request =
           Some (Some \<lparr>Bytes = Bytes img,
                 MimeType = ''image/'' @ strings_ToLower lib (GetImageFormat lib wand)\<rparr>)"
proof -
  have crop: "cropWand pf lib wand request = (None, False, wand)"
    using assms(1) by (simp add: cropWand_def)
  have scale: "scaleWand pf lib cfg wand request = Some (None, False, wand)"
    using assms(4) by (simp add: scaleWand_def Let_def assms(3))
  have blur: "blurWand lib cfg wand request = (None, False, wand)"
    using assms(5) by (simp add: blurWand_def)
  have gray: "grayscaleWand lib cfg wand request = (None, False, wand)"
    using assms(6,7) by (simp add: grayscaleWand_def)
  show ?thesis
    by (simp add: ProcessImage_def Let_def assms(2) [symmetric] crop scale blur gray)
qed

theorem ProcessImage_passthrough_witness:
  "getScaledDimensions example_platform (example_config\<lparr>MaxImageWidth := 0\<rparr>)
       \<lparr>Width = 2000, Height = 1000\<rparr>
       \<lparr>Dimensions = \<lparr>Width = 0, Height = 0\<rparr>, BlurRadius = Fin 0,
        GrayScale = False, Crop = None\<rparr>
     = Some \<lparr>Width = 2000, Height = 1000\<rparr> \<and>
   ProcessImage example_platform example_imagick (example_config\<lparr>MaxImageWidth := 0\<rparr>)
       \<lparr>Bytes = [1, 2, 3], MimeType = ''image/jpeg''\<rparr>
       \<lparr>Dimensions = \<lparr>Width = 0, Height = 0\<rparr>, BlurRadius = Fin 0,
        GrayScale = False, Crop = None\<rparr>
     = Some (Some \<lparr>Bytes = [1, 2, 3], MimeType = ''image/JPEG''\<rparr>)"
proof -
  let ?cfg = "example_config\<lparr>MaxImageWidth := 0\<rparr>"
  let ?img = "\<lparr>Bytes = [1, 2, 3], MimeType = ''image/jpeg''\<rparr>"
  let ?request = "\<lparr>Dimensions = \<lparr>Width = 0, Height = 0\<rparr>, BlurRadius = Fin 0,
      GrayScale = False, Crop = None\<rparr>"
  let ?cur = "\<lparr>Width = 2000, Height = 1000\<rparr> :: ImageDimensions"
  have wand: "example_image_wand =
      snd (ReadImageBlob example_imagick (NewMagickWand example_imagick) (Bytes ?img))"
    by (simp add: example_imagick_def example_image_wand_def)
  have cur: "?cur = \<lparr>Width = GetImageWidth example_imagick example_image_wand,
      Height = GetImageHeight example_imagick example_image_wand\<rparr>"
    by (simp add: example_imagick_def example_image_wand_def)
  have s: "scaleToRequestedDimensions example_platform ?cfg ?cur \<lparr>Width = 0, Height = 0\<rparr>
      = ?cur"
    by (subst scaleToRequestedDimensions.simps) simp
  have c: "clampDimensionsToMaxima example_platform ?cfg ?cur = Some ?cur"
    by (subst clampDimensionsToMaxima.simps) (simp add: example_config_def)
  have d: "DefaultImageWidth ?cfg = 0" "DefaultImageHeight ?cfg = 0"
    by (simp_all add: example_config_def)
  have g: "getScaledDimensions example_platform ?cfg ?cur ?request = Some ?cur"
    by (simp add: getScaledDimensions_def d s c)
  have "ProcessImage example_platform example_imagick ?cfg ?img ?request =
      Some (Some \<lparr>Bytes = Bytes ?img,
            MimeType = ''image/'' @ strings_ToLower example_imagick
                         (GetImageFormat example_imagick example_image_wand)\<rparr>)"
    by (rule ProcessImage_passthrough [OF _ wand cur g])
      (simp_all add: example_config_def)
  then show ?thesis
    using g by (simp add: example_imagick_def example_image_wand_def)
qed

section \<open>Properties of the blur and grayscale stages\<close>

text \<open>
  The binary64 number nearest to 0.1, which is what \<^verbatim>\<open>ParseFloat\<close> returns for \<^verbatim>\<open>0.1\<close>, and
  the products of the example: 800 times that number is a little more than 80 and is
  rounded to 80, and half of 80 is 40.
\<close>

lemma f64_round_tenth: "f64_round (1 / 10) = Fin (3602879701896397 / 36028797018963968)"
proof -
  have "round_half_even ((1 / 10) / 2 powi (- 4 - 52)) = 7205759403792794"
    by (rule round_half_even_unique) (simp_all add: power_int_minus)
  then have "round_rat (1 / 10) = of_int 7205759403792794 * 2 powi (- 4 - 52)"
    by (intro round_rat_eval) (simp_all add: power_int_minus)
  then have r: "round_rat (1 / 10) = 3602879701896397 / 36028797018963968"
    by (simp add: power_int_minus)
  show ?thesis by (simp add: f64_round_def Let_def r)
qed

lemma blur_example_product:
  "f64_mul (f64_mul (float64_of_uint64 800) (f64_round (1 / 10))) (Fin (1 / 2)) = Fin 40"
proof -
  let ?p = "800 * (3602879701896397 / 36028797018963968) :: rat"
  have "round_half_even (?p / 2 powi (6 - 52)) = 5629499534213120"
    by (rule round_half_even_unique) (simp_all add: power_int_minus)
  then have "round_rat ?p = of_int 5629499534213120 * 2 powi (6 - 52)"
    by (intro round_rat_eval) simp_all
  then have r: "round_rat ?p = 80"
    by (simp add: power_int_minus)
  have "f64_round ?p = Fin 80"
    unfolding f64_round_def Let_def r by simp
  then have "f64_mul (Fin 800) (Fin (3602879701896397 / 36028797018963968)) = Fin 80"
    by (simp only: f64_mul.simps)
  moreover have "float64_of_uint64 800 = Fin 800"
    by (simp add: float64_of_uint64_def)
  moreover have "f64_mul (Fin 80) (Fin (1 / 2)) = Fin 40"
    by simp
  ultimately show ?thesis
    by (simp only: f64_round_tenth)
qed

text \<open>
  The product is a float product. For the width 3, the fraction 0.1 and the percentage 1
  it is 0.30000000000000004 and not the binary64 number nearest to 0.3; for a fraction of
  \<open>2\<^sup>1\<^sup>0\<^sup>2\<^sup>3\<close> it overflows to \<open>+Inf\<close>.
\<close>

lemma blur_product_rounded:
  "f64_mul (f64_mul (float64_of_uint64 3) (f64_round (1 / 10))) (Fin 1) =
     Fin (1351079888211149 / 4503599627370496)"
  "f64_round (3 / 10) = Fin (5404319552844595 / 18014398509481984)"
proof -
  let ?p = "3 * (3602879701896397 / 36028797018963968) :: rat"
  have "round_half_even (10808639105689191 / 2) = 5404319552844596"
    using round_half_even_tie [of "10808639105689191 / 2" 5404319552844595] by simp
  then have "round_half_even (?p / 2 powi (- 2 - 52)) = 5404319552844596"
    by (simp add: power_int_minus)
  then have "round_rat ?p = of_int 5404319552844596 * 2 powi (- 2 - 52)"
    by (intro round_rat_eval) (simp_all add: power_int_minus)
  then have r: "round_rat ?p = 1351079888211149 / 4503599627370496"
    by (simp add: power_int_minus)
  have "f64_round ?p = Fin (1351079888211149 / 4503599627370496)"
    unfolding f64_round_def Let_def r by simp
  then have "f64_mul (Fin 3) (Fin (3602879701896397 / 36028797018963968)) =
      Fin (1351079888211149 / 4503599627370496)"
    by (simp only: f64_mul.simps)
  moreover have "float64_of_uint64 3 = Fin 3"
    by (simp add: float64_of_uint64_def)
  moreover have "f64_round (1351079888211149 / 4503599627370496) =
      Fin (1351079888211149 / 4503599627370496)"
    by (rule f64_round_exact [where m = 1351079888211149 and e = "- 52"])
      (simp_all add: power_int_minus)
  then have "f64_mul (Fin (1351079888211149 / 4503599627370496)) (Fin 1) =
      Fin (1351079888211149 / 4503599627370496)"
    by simp
  ultimately show "f64_mul (f64_mul (float64_of_uint64 3) (f64_round (1 / 10))) (Fin 1) =
     Fin (1351079888211149 / 4503599627370496)"
    by (simp only: f64_round_tenth)
  have "round_half_even ((3 / 10) / 2 powi (- 2 - 52)) = 5404319552844595"
    by (rule round_half_even_unique) (simp_all add: power_int_minus)
  then have "round_rat (3 / 10) = of_int 5404319552844595 * 2 powi (- 2 - 52)"
    by (intro round_rat_eval) (simp_all add: power_int_minus)
  then have r: "round_rat (3 / 10) = 5404319552844595 / 18014398509481984"
    by (simp add: power_int_minus)
  show "f64_round (3 / 10) = Fin (5404319552844595 / 18014398509481984)"
    by (simp add: f64_round_def Let_def r)
qed

lemma blur_product_overflow:
  "f64_mul (float64_of_uint64 800) (Fin (2 ^ 1023)) = PInf"
proof -
  have "(2 :: rat) powi 1024 \<le> 800 * 2 ^ 1023" by simp
  then have "(2 :: rat) powi 1024 \<le> round_rat (800 * 2 ^ 1023)"
    by (rule round_rat_ge_power) simp
  then have "f64_round (800 * 2 ^ 1023) = PInf"
    by (simp add: f64_round_def Let_def)
  moreover have "float64_of_uint64 800 = Fin 800"
    by (simp add: float64_of_uint64_def)
  ultimately show ?thesis by simp
qed

text \<open>
  C7. The blur stage runs exactly when the request's blur fraction is nonzero (Go's
  \<^verbatim>\<open>!= 0\<close>): then the outcome is that of \<^verbatim>\<open>GaussianBlurImage\<close> called with one radius for
  both axes, the \<^verbatim>\<open>float64\<close> product of the current image width, the blur fraction and
  the configured maximum blur radius percentage (multiplied from left to right, each
  product rounded), and the stage reports a modification; otherwise the wand is left
  alone, with no error and no modification. Width 800, the fraction 0.1 (the binary64
  number nearest to it) and the percentage 0.5 give the radius 40.
\<close>

theorem blurWand_radius:
  "(f64_eq (BlurRadius request) (Fin 0) \<longrightarrow>
      blurWand lib cfg wand request = (None, False, wand)) \<and>
   (\<not> f64_eq (BlurRadius request) (Fin 0) \<longrightarrow>
      (\<exists>blurRadius.
         blurRadius =
           f64_mul (f64_mul (float64_of_uint64 (GetImageWidth lib wand)) (BlurRadius request))
                   (MaxBlurRadiusPercentage cfg) \<and>
         blurWand lib cfg wand request =
           (fst (GaussianBlurImage lib wand blurRadius blurRadius), True,
            snd (GaussianBlurImage lib wand blurRadius blurRadius)))) \<and>
   (fst (snd (blurWand lib cfg wand request)) \<longleftrightarrow>
      \<not> f64_eq (BlurRadius request) (Fin 0)) \<and>
   (GetImageWidth lib wand = 800 \<and> BlurRadius request = f64_round (1 / 10) \<and>
    MaxBlurRadiusPercentage cfg = Fin (1 / 2) \<longrightarrow>
      \<not> f64_eq (BlurRadius request) (Fin 0) \<and>
      f64_mul (f64_mul (float64_of_uint64 (GetImageWidth lib wand)) (BlurRadius request))
              (MaxBlurRadiusPercentage cfg)
        = Fin 40)"
proof (intro conjI impI)
  assume "f64_eq (BlurRadius request) (Fin 0)"
  then show "blurWand lib cfg wand request = (None, False, wand)"
    by (simp add: blurWand_def)
next
  assume "\<not> f64_eq (BlurRadius request) (Fin 0)"
  then show "\<exists>blurRadius.
      blurRadius =
        f64_mul (f64_mul (float64_of_uint64 (GetImageWidth lib wand)) (BlurRadius request))
                (MaxBlurRadiusPercentage cfg) \<and>
      blurWand lib cfg wand request =
        (fst (GaussianBlurImage lib wand blurRadius blurRadius), True,
         snd (GaussianBlurImage lib wand blurRadius blurRadius))"
    by (simp add: blurWand_def Let_def split: prod.split)
next
  show "fst (snd (blurWand lib cfg wand request)) \<longleftrightarrow>
      \<not> f64_eq (BlurRadius request) (Fin 0)"
    by (simp add: blurWand_def Let_def split: prod.split)
next
  assume "GetImageWidth lib wand = 800 \<and> BlurRadius request = f64_round (1 / 10) \<and>
    MaxBlurRadiusPercentage cfg = Fin (1 / 2)"
  then show "\<not> f64_eq (BlurRadius request) (Fin 0)"
    by (simp add: f64_round_tenth)
next
  assume "GetImageWidth lib wand = 800 \<and> BlurRadius request = f64_round (1 / 10) \<and>
    MaxBlurRadiusPercentage cfg = Fin (1 / 2)"
  then show "f64_mul (f64_mul (float64_of_uint64 (GetImageWidth lib wand)) (BlurRadius request))
              (MaxBlurRadiusPercentage cfg)
        = Fin 40"
    by (simp only: blur_example_product)
qed

theorem blurWand_radius_witness:
  "GetImageWidth example_imagick (example_image_wand\<lparr>wand_width := 800\<rparr>) = 800 \<and>
   MaxBlurRadiusPercentage example_config = Fin (1 / 2) \<and>
   f64_round (1 / 10) = Fin (3602879701896397 / 36028797018963968) \<and>
   \<not> f64_eq (f64_round (1 / 10)) (Fin 0) \<and>
   f64_mul (f64_mul (float64_of_uint64 800) (f64_round (1 / 10))) (Fin (1 / 2)) = Fin 40 \<and>
   blurWand example_imagick example_config (example_image_wand\<lparr>wand_width := 800\<rparr>)
       \<lparr>Dimensions = \<lparr>Width = 0, Height = 0\<rparr>, BlurRadius = f64_round (1 / 10),
        GrayScale = False, Crop = None\<rparr>
     = (None, True, example_image_wand\<lparr>wand_width := 800\<rparr>) \<and>
   blurWand example_imagick example_config (example_image_wand\<lparr>wand_width := 800\<rparr>)
       \<lparr>Dimensions = \<lparr>Width = 0, Height = 0\<rparr>, BlurRadius = Fin 0,
        GrayScale = False, Crop = None\<rparr>
     = (None, False, example_image_wand\<lparr>wand_width := 800\<rparr>)"
proof -
  let ?wand = "example_image_wand\<lparr>wand_width := 800\<rparr>"
  let ?blur = "\<lparr>Dimensions = \<lparr>Width = 0, Height = 0\<rparr>, BlurRadius = f64_round (1 / 10),
      GrayScale = False, Crop = None\<rparr>"
  let ?plain = "\<lparr>Dimensions = \<lparr>Width = 0, Height = 0\<rparr>, BlurRadius = Fin 0,
      GrayScale = False, Crop = None\<rparr>"
  have w: "GetImageWidth example_imagick ?wand = 800"
    by (simp add: example_imagick_def)
  have m: "MaxBlurRadiusPercentage example_config = Fin (1 / 2)"
    by (simp add: example_config_def)
  have b: "BlurRadius ?blur = f64_round (1 / 10)" by simp
  have z: "f64_eq (BlurRadius ?plain) (Fin 0)" by simp
  note t1 = blurWand_radius [of ?blur example_imagick example_config ?wand]
  note t2 = blurWand_radius [of ?plain example_imagick example_config ?wand]
  from t1 [THEN conjunct2, THEN conjunct2, THEN conjunct2, THEN mp, OF conjI [OF w conjI [OF b m]]]
  have nz: "\<not> f64_eq (BlurRadius ?blur) (Fin 0)"
    and r: "f64_mul (f64_mul (float64_of_uint64 (GetImageWidth example_imagick ?wand))
      (BlurRadius ?blur)) (MaxBlurRadiusPercentage example_config) = Fin 40"
    by (rule conjunct1, rule conjunct2)
  have "blurWand example_imagick example_config ?wand ?blur =
      (fst (GaussianBlurImage example_imagick ?wand (Fin 40) (Fin 40)), True,
       snd (GaussianBlurImage example_imagick ?wand (Fin 40) (Fin 40)))"
    using t1 [THEN conjunct2, THEN conjunct1, THEN mp, OF nz] unfolding r by simp
  then have bl: "blurWand example_imagick example_config ?wand ?blur = (None, True, ?wand)"
    by (simp add: example_imagick_def)
  have p: "blurWand example_imagick example_config ?wand ?plain = (None, False, ?wand)"
    using t2 [THEN conjunct1, THEN mp, OF z] .
  have r': "f64_mul (f64_mul (float64_of_uint64 800) (f64_round (1 / 10))) (Fin (1 / 2)) = Fin 40"
    using r unfolding w b m .
  have nz': "\<not> f64_eq (f64_round (1 / 10)) (Fin 0)"
    using nz by simp
  show ?thesis
    using w m r' nz' bl p f64_round_tenth by (intro conjI)
qed

text \<open>
  C8. The grayscale stage runs exactly when grayscale is not disabled in the configuration
  and the configuration forces it by default or the request asks for it: then the outcome
  is that of \<^verbatim>\<open>TransformImageColorspace\<close> to gray and the stage reports a modification;
  otherwise the wand is left alone, with no error and no modification.
\<close>

theorem grayscaleWand_condition:
  "(\<not> GrayscaleDisabled cfg \<and> (GrayscaleByDefault cfg \<or> GrayScale request) \<longrightarrow>
      grayscaleWand lib cfg wand request =
        (fst (TransformImageColorspace lib wand COLORSPACE_GRAY), True,
         snd (TransformImageColorspace lib wand COLORSPACE_GRAY))) \<and>
   (\<not> (\<not> GrayscaleDisabled cfg \<and> (GrayscaleByDefault cfg \<or> GrayScale request)) \<longrightarrow>
      grayscaleWand lib cfg wand request = (None, False, wand)) \<and>
   (fst (snd (grayscaleWand lib cfg wand request)) \<longleftrightarrow>
      \<not> GrayscaleDisabled cfg \<and> (GrayscaleByDefault cfg \<or> GrayScale request))"
  by (simp add: grayscaleWand_def split: prod.split)

theorem grayscaleWand_condition_witness:
  "\<not> GrayscaleDisabled example_config \<and>
   grayscaleWand example_imagick example_config example_image_wand
       \<lparr>Dimensions = \<lparr>Width = 0, Height = 0\<rparr>, BlurRadius = Fin 0,
        GrayScale = True, Crop = None\<rparr>
     = (None, True, example_image_wand) \<and>
   grayscaleWand example_imagick example_config example_image_wand
       \<lparr>Dimensions = \<lparr>Width = 0, Height = 0\<rparr>, BlurRadius = Fin 0,
        GrayScale = False, Crop = None\<rparr>
     = (None, False, example_image_wand) \<and>
   grayscaleWand example_imagick (example_config\<lparr>GrayscaleDisabled := True\<rparr>)
       example_image_wand
       \<lparr>Dimensions = \<lparr>Width = 0, Height = 0\<rparr>, BlurRadius = Fin 0,
        GrayScale = True, Crop = None\<rparr>
     = (None, False, example_image_wand)"
proof -
  let ?gray = "\<lparr>Dimensions = \<lparr>Width = 0, Height = 0\<rparr>, BlurRadius = Fin 0,
      GrayScale = True, Crop = None\<rparr>"
  let ?plain = "\<lparr>Dimensions = \<lparr>Width = 0, Height = 0\<rparr>, BlurRadius = Fin 0,
      GrayScale = False, Crop = None\<rparr>"
  have c: "\<not> GrayscaleDisabled example_config" "\<not> GrayscaleByDefault example_config"
    by (simp_all add: example_config_def)
  have "grayscaleWand example_imagick example_config example_image_wand ?gray =
      (fst (TransformImageColorspace example_imagick example_image_wand COLORSPACE_GRAY), True,
       snd (TransformImageColorspace example_imagick example_image_wand COLORSPACE_GRAY))"
    using grayscaleWand_condition [of example_config ?gray example_imagick example_image_wand,
        THEN conjunct1] c
    by simp
  then have g: "grayscaleWand example_imagick example_config example_image_wand ?gray =
      (None, True, example_image_wand)"
    by (simp add: example_imagick_def)
  have p: "grayscaleWand example_imagick example_config example_image_wand ?plain =
      (None, False, example_image_wand)"
    using grayscaleWand_condition [of example_config ?plain example_imagick example_image_wand,
        THEN conjunct2, THEN conjunct1] c
    by simp
  have d: "grayscaleWand example_imagick (example_config\<lparr>GrayscaleDisabled := True\<rparr>)
      example_image_wand ?gray = (None, False, example_image_wand)"
    using grayscaleWand_condition [of "example_config\<lparr>GrayscaleDisabled := True\<rparr>" ?gray
        example_imagick example_image_wand, THEN conjunct2, THEN conjunct1]
    by simp
  show ?thesis using c g p d by simp
qed

section \<open>A current image of height zero\<close>

text \<open>
  C9 as stated fails. When decoding leaves the wand empty the current image is 0 by 0;
  with nothing requested the dimension engine returns 0 by 0 as the resolved size, the
  scale stage reports no error, and \<^verbatim>\<open>ProcessImage\<close> returns an image (the input bytes)
  instead of aborting. For a current image of 100 by 0 and a request for width 50 the
  engine resolves the size 50 by 0, and the scale stage goes on to resize with it.
\<close>

theorem scaleWand_zero_height_counterexample:
  "GetImageHeight example_failing_imagick (NewMagickWand example_failing_imagick) = 0 \<and>
   getScaledDimensions example_platform example_config \<lparr>Width = 0, Height = 0\<rparr>
       \<lparr>Dimensions = \<lparr>Width = 0, Height = 0\<rparr>, BlurRadius = Fin 0,
        GrayScale = False, Crop = None\<rparr>
     = Some \<lparr>Width = 0, Height = 0\<rparr> \<and>
   ProcessImage example_platform example_failing_imagick example_config
       \<lparr>Bytes = [1, 2, 3], MimeType = []\<rparr>
       \<lparr>Dimensions = \<lparr>Width = 0, Height = 0\<rparr>, BlurRadius = Fin 0,
        GrayScale = False, Crop = None\<rparr>
     = Some (Some \<lparr>Bytes = [1, 2, 3], MimeType = ''image/''\<rparr>) \<and>
   getScaledDimensions example_platform example_config \<lparr>Width = 100, Height = 0\<rparr>
       \<lparr>Dimensions = \<lparr>Width = 50, Height = 0\<rparr>, BlurRadius = Fin 0,
        GrayScale = False, Crop = None\<rparr>
     = Some \<lparr>Width = 50, Height = 0\<rparr> \<and>
   scaleWand example_platform example_imagick example_config
       (example_image_wand\<lparr>wand_width := 100, wand_height := 0\<rparr>)
       \<lparr>Dimensions = \<lparr>Width = 50, Height = 0\<rparr>, BlurRadius = Fin 0,
        GrayScale = False, Crop = None\<rparr>
     = Some (None, True, example_image_wand\<lparr>wand_width := 50, wand_height := 0\<rparr>)"
proof -
  let ?empty = "\<lparr>Width = 0, Height = 0\<rparr> :: ImageDimensions"
  let ?flat = "\<lparr>Width = 100, Height = 0\<rparr> :: ImageDimensions"
  let ?nothing = "\<lparr>Dimensions = \<lparr>Width = 0, Height = 0\<rparr>, BlurRadius = Fin 0,
      GrayScale = False, Crop = None\<rparr>"
  let ?request = "\<lparr>Dimensions = \<lparr>Width = 50, Height = 0\<rparr>, BlurRadius = Fin 0,
      GrayScale = False, Crop = None\<rparr>"
  let ?wand0 = "NewMagickWand example_failing_imagick"
  have d: "DefaultImageWidth example_config = 0" "DefaultImageHeight example_config = 0"
    "MaxImageWidth example_config = 1000" "MaxImageHeight example_config = 0"
    "\<not> GrayscaleDisabled example_config" "\<not> GrayscaleByDefault example_config"
    by (simp_all add: example_config_def)
  have w0: "GetImageWidth example_failing_imagick ?wand0 = 0"
    "GetImageHeight example_failing_imagick ?wand0 = 0"
    "GetImageFormat example_failing_imagick ?wand0 = []"
    "snd (ReadImageBlob example_failing_imagick ?wand0 [1, 2, 3]) = ?wand0"
    "strings_ToLower example_failing_imagick [] = []"
    by (simp_all add: example_failing_imagick_def example_imagick_def)
  have s0: "scaleToRequestedDimensions example_platform example_config ?empty ?empty = ?empty"
    by (subst scaleToRequestedDimensions.simps) simp
  have c0: "clampDimensionsToMaxima example_platform example_config ?empty = Some ?empty"
    by (subst clampDimensionsToMaxima.simps) (simp add: d)
  have g0: "getScaledDimensions example_platform example_config ?empty ?nothing = Some ?empty"
    by (simp add: getScaledDimensions_def d s0 c0)
  have stages: "cropWand example_platform example_failing_imagick ?wand0 ?nothing
        = (None, False, ?wand0)"
    "scaleWand example_platform example_failing_imagick example_config ?wand0 ?nothing
        = Some (None, False, ?wand0)"
    "blurWand example_failing_imagick example_config ?wand0 ?nothing = (None, False, ?wand0)"
    "grayscaleWand example_failing_imagick example_config ?wand0 ?nothing
        = (None, False, ?wand0)"
    by (simp_all add: cropWand_def scaleWand_def blurWand_def grayscaleWand_def Let_def
        w0 g0 d)
  have p0: "ProcessImage example_platform example_failing_imagick example_config
      \<lparr>Bytes = [1, 2, 3], MimeType = []\<rparr> ?nothing
      = Some (Some \<lparr>Bytes = [1, 2, 3], MimeType = ''image/''\<rparr>)"
    by (simp add: ProcessImage_def Let_def w0 stages)
  have r: "AspectRatio ?flat = PInf"
    by (simp add: AspectRatio_def float64_of_uint64_def)
  have h: "getAspectScaledHeight example_platform PInf 50 = 0"
    by (simp add: getAspectScaledHeight_def float64_of_uint64_def uint64_of_float64_def
        trunc_to_zero_def floor_half)
  have s: "scaleToRequestedDimensions example_platform example_config ?flat
      \<lparr>Width = 50, Height = 0\<rparr> = \<lparr>Width = 50, Height = 0\<rparr>"
    by (subst scaleToRequestedDimensions.simps) (simp add: r h)
  have c: "clampDimensionsToMaxima example_platform example_config \<lparr>Width = 50, Height = 0\<rparr>
      = Some \<lparr>Width = 50, Height = 0\<rparr>"
    by (subst clampDimensionsToMaxima.simps) (simp add: d)
  have g: "getScaledDimensions example_platform example_config ?flat ?request
      = Some \<lparr>Width = 50, Height = 0\<rparr>"
    by (simp add: getScaledDimensions_def s c)
  have w: "scaleWand example_platform example_imagick example_config
       (example_image_wand\<lparr>wand_width := 100, wand_height := 0\<rparr>) ?request
     = Some (None, True, example_image_wand\<lparr>wand_width := 50, wand_height := 0\<rparr>)"
    by (simp add: scaleWand_def Let_def example_imagick_def example_image_wand_def g)
  show ?thesis using w0(2) g0 p0 g w by simp
qed

text \<open>
  C9, amended. For a current image whose height is zero the dimension engine applies no
  guard and reports no error: it still returns a size. When neither dimension is requested
  it returns the current size unchanged; when only a width is requested and the current
  width is nonzero it returns that width with height 0.
\<close>

theorem scaleToRequestedDimensions_zero_height:
  assumes "Height cur = 0"
  shows "(Width req = 0 \<and> Height req = 0 \<longrightarrow>
        scaleToRequestedDimensions pf cfg cur req = cur) \<and>
     (Width cur \<noteq> 0 \<and> Width req \<noteq> 0 \<and> Height req = 0 \<longrightarrow>
        scaleToRequestedDimensions pf cfg cur req = \<lparr>Width = Width req, Height = 0\<rparr>)"
proof (intro conjI impI)
  have r: "AspectRatio cur = (if Width cur = 0 then NaN else PInf)"
    using assms by (simp only: AspectRatio_def f64_div_by_zero)
  show "scaleToRequestedDimensions pf cfg cur req = cur"
    if "Width req = 0 \<and> Height req = 0"
    using that by (subst scaleToRequestedDimensions.simps) simp
  show "scaleToRequestedDimensions pf cfg cur req = \<lparr>Width = Width req, Height = 0\<rparr>"
    if "Width cur \<noteq> 0 \<and> Width req \<noteq> 0 \<and> Height req = 0"
  proof -
    have "AspectRatio cur = PInf" using r that by simp
    moreover have "getAspectScaledHeight pf PInf (Width req) = 0"
      by (simp add: getAspectScaledHeight_def float64_of_uint64_Fin(1) uint64_of_float64_def
          trunc_to_zero_def floor_half del: of_int_uint)
    ultimately show ?thesis
      using that
      by (subst scaleToRequestedDimensions.simps) (simp add: word_greater_zero_iff)
  qed
qed

theorem scaleToRequestedDimensions_zero_height_witness:
  "Height \<lparr>Width = 100, Height = 0\<rparr> = 0 \<and>
   scaleToRequestedDimensions example_platform example_config
       \<lparr>Width = 100, Height = 0\<rparr> \<lparr>Width = 0, Height = 0\<rparr>
     = \<lparr>Width = 100, Height = 0\<rparr> \<and>
   scaleToRequestedDimensions example_platform example_config
       \<lparr>Width = 100, Height = 0\<rparr> \<lparr>Width = 50, Height = 0\<rparr>
     = \<lparr>Width = 50, Height = 0\<rparr>"
proof -
  let ?cur = "\<lparr>Width = 100, Height = 0\<rparr> :: ImageDimensions"
  have h: "Height ?cur = 0" by simp
  note t0 = scaleToRequestedDimensions_zero_height
    [OF h, of "\<lparr>Width = 0, Height = 0\<rparr>" example_platform example_config]
  note t1 = scaleToRequestedDimensions_zero_height
    [OF h, of "\<lparr>Width = 50, Height = 0\<rparr>" example_platform example_config]
  have "scaleToRequestedDimensions example_platform example_config ?cur
      \<lparr>Width = 0, Height = 0\<rparr> = ?cur"
    using t0 by simp
  moreover have "scaleToRequestedDimensions example_platform example_config ?cur
      \<lparr>Width = 50, Height = 0\<rparr> = \<lparr>Width = 50, Height = 0\<rparr>"
    using t1 by simp
  ultimately show ?thesis by simp
qed

section \<open>Properties of the option resolver\<close>

text \<open>
  When the submatch list has an entry for every group of the pattern (as Go's \<^verbatim>\<open>regexp\<close>
  guarantees), the loop of \<^verbatim>\<open>NamedSubexpMap\<close> does not panic; it binds exactly the nonempty
  group names, each to the submatch of a group of that name, and leaves the other keys.
\<close>

lemma NamedSubexpMap_loop_result:
  assumes "i + length names \<le> length matches"
  shows "\<exists>m'. NamedSubexpMap_loop matches names i m = Inr m' \<and>
      (\<forall>key. key \<notin> set names \<or> key = [] \<longrightarrow> m' key = m key) \<and>
      (\<forall>key. key \<in> set names \<and> key \<noteq> [] \<longrightarrow>
         (\<exists>j < length names. names ! j = key \<and> m' key = Some (matches ! (i + j))))"
  using assms
proof (induction names arbitrary: i m)
  case Nil
  then show ?case by simp
next
  case (Cons name names)
  show ?case
  proof (cases "name = []")
    case True
    from Cons.prems have "Suc i + length names \<le> length matches" by simp
    from Cons.IH [OF this, of m] obtain m' where
      run: "NamedSubexpMap_loop matches names (Suc i) m = Inr m'"
      and other: "\<And>key. key \<notin> set names \<or> key = [] \<Longrightarrow> m' key = m key"
      and bound: "\<And>key. key \<in> set names \<and> key \<noteq> [] \<Longrightarrow>
         \<exists>j < length names. names ! j = key \<and> m' key = Some (matches ! (Suc i + j))"
      by blast
    have B: "\<exists>j < length (name # names). (name # names) ! j = key \<and>
        m' key = Some (matches ! (i + j))"
      if "key \<in> set (name # names) \<and> key \<noteq> []" for key
    proof -
      from that True have "key \<in> set names \<and> key \<noteq> []" by auto
      from bound [OF this] obtain j where "j < length names" "names ! j = key"
        "m' key = Some (matches ! (Suc i + j))" by blast
      then have "Suc j < length (name # names) \<and> (name # names) ! Suc j = key \<and>
          m' key = Some (matches ! (i + Suc j))" by simp
      then show ?thesis by blast
    qed
    have A: "m' key = m key" if "key \<notin> set (name # names) \<or> key = []" for key
      using that other [of key] by auto
    have R: "NamedSubexpMap_loop matches (name # names) i m = Inr m'"
      using run True by simp
    show ?thesis using R A B by blast
  next
    case False
    from Cons.prems have i: "i < length matches"
      and "Suc i + length names \<le> length matches" by simp_all
    from Cons.IH [OF this(2), of "m(name \<mapsto> matches ! i)"] obtain m' where
      run: "NamedSubexpMap_loop matches names (Suc i) (m(name \<mapsto> matches ! i)) = Inr m'"
      and other: "\<And>key. key \<notin> set names \<or> key = [] \<Longrightarrow>
         m' key = (m(name \<mapsto> matches ! i)) key"
      and bound: "\<And>key. key \<in> set names \<and> key \<noteq> [] \<Longrightarrow>
         \<exists>j < length names. names ! j = key \<and> m' key = Some (matches ! (Suc i + j))"
      by blast
    have B: "\<exists>j < length (name # names). (name # names) ! j = key \<and>
        m' key = Some (matches ! (i + j))"
      if key: "key \<in> set (name # names) \<and> key \<noteq> []" for key
    proof (cases "key \<in> set names")
      case True
      with key bound [of key] obtain j where "j < length names" "names ! j = key"
        "m' key = Some (matches ! (Suc i + j))" by blast
      then have "Suc j < length (name # names) \<and> (name # names) ! Suc j = key \<and>
          m' key = Some (matches ! (i + Suc j))" by simp
      then show ?thesis by blast
    next
      case notin: False
      with key have "key = name" by simp
      with notin other [of key] have "m' key = Some (matches ! i)" by simp
      with \<open>key = name\<close> have "0 < length (name # names) \<and> (name # names) ! 0 = key \<and>
          m' key = Some (matches ! (i + 0))" by simp
      then show ?thesis by blast
    qed
    have A: "m' key = m key" if "key \<notin> set (name # names) \<or> key = []" for key
      using that other [of key] False by auto
    have R: "NamedSubexpMap_loop matches (name # names) i m = Inr m'"
      using run False i by simp
    show ?thesis using R A B by blast
  qed
qed

lemma NamedSubexpMap_result:
  assumes "FindAllStringSubmatch re s = matches # rest"
    and "length (SubexpNames re) \<le> length matches"
  shows "\<exists>pathArgs. NamedSubexpMap re s = Inr pathArgs \<and>
      (\<forall>key. pathArgs key \<noteq> None \<longleftrightarrow> key \<in> set (SubexpNames re) \<and> key \<noteq> []) \<and>
      (\<forall>key v. pathArgs key = Some v \<longrightarrow>
         (\<exists>j < length (SubexpNames re). SubexpNames re ! j = key \<and> v = matches ! j))"
proof -
  from assms(2) have "0 + length (SubexpNames re) \<le> length matches" by simp
  from NamedSubexpMap_loop_result [OF this, of Map.empty] obtain m' where
    run: "NamedSubexpMap_loop matches (SubexpNames re) 0 Map.empty = Inr m'"
    and other: "\<And>key. key \<notin> set (SubexpNames re) \<or> key = [] \<Longrightarrow> m' key = None"
    and bound: "\<And>key. key \<in> set (SubexpNames re) \<and> key \<noteq> [] \<Longrightarrow>
       \<exists>j < length (SubexpNames re). SubexpNames re ! j = key \<and> m' key = Some (matches ! j)"
    by auto
  have 1: "NamedSubexpMap re s = Inr m'"
    using assms(1) run by (simp add: NamedSubexpMap_def)
  have 2: "m' key \<noteq> None \<longleftrightarrow> key \<in> set (SubexpNames re) \<and> key \<noteq> []" for key
  proof (cases "key \<in> set (SubexpNames re) \<and> key \<noteq> []")
    case True
    from bound [OF this] True show ?thesis by auto
  next
    case False
    then have "m' key = None" by (intro other) blast
    with False show ?thesis by simp
  qed
  have 3: "\<exists>j < length (SubexpNames re). SubexpNames re ! j = key \<and> v = matches ! j"
    if "m' key = Some v" for key v
  proof -
    from that 2 [of key] have "key \<in> set (SubexpNames re) \<and> key \<noteq> []" by simp
    from bound [OF this] that show ?thesis by auto
  qed
  from 1 2 3 show ?thesis by blast
qed

lemma pathOrFormValue_same:
  assumes "\<forall>key. pathArgs key \<noteq> None \<longleftrightarrow> key \<in> set names \<and> key \<noteq> []"
    and "\<forall>key. key \<notin> set names \<longrightarrow> FormValue r' key = FormValue r key"
    and "k \<noteq> []"
  shows "pathOrFormValue pathArgs r' k = pathOrFormValue pathArgs r k"
proof (cases "pathArgs k")
  case None
  have "k \<notin> set names"
  proof
    assume "k \<in> set names"
    with assms(3) have "k \<in> set names \<and> k \<noteq> []" by simp
    with assms(1) have "pathArgs k \<noteq> None" by blast
    with None show False by simp
  qed
  with assms(2) None show ?thesis by (simp add: pathOrFormValue_def)
next
  case (Some v)
  then show ?thesis by (simp add: pathOrFormValue_def)
qed

text \<open>
  C5. For a request whose path the route's pattern matches, the resolver returns options
  in which each of the fields \<^verbatim>\<open>w\<close>, \<^verbatim>\<open>h\<close>, \<^verbatim>\<open>blur\<close> and \<^verbatim>\<open>grayscale\<close> is parsed from the
  path-captured value when the pattern defines a named group of that key, and from the
  query parameter only when it defines none. The path arguments are bound exactly for the
  named groups of the pattern, each to a submatch of a group of that name. A same-named
  query parameter is ignored: changing the form values of keys the pattern names changes
  nothing. When neither is present the parser receives the empty string, for which Go's
  parsers return the zero value. In particular a path capture of 100 for \<^verbatim>\<open>w\<close> gives the
  width 100 whatever the query string says.
\<close>

theorem SourceAndProcessorOptionsForRequest_precedence:
  assumes "FindAllStringSubmatch (Pattern route) (URL_Path r) = matches # rest"
    and "length (SubexpNames (Pattern route)) \<le> length matches"
  shows "\<exists>pathArgs source options.
      NamedSubexpMap (Pattern route) (URL_Path r) = Inr pathArgs \<and>
      SourceAndProcessorOptionsForRequest sc route r = Inr (source, options) \<and>
      (\<forall>key. pathArgs key \<noteq> None \<longleftrightarrow>
         key \<in> set (SubexpNames (Pattern route)) \<and> key \<noteq> []) \<and>
      (\<forall>key v. pathArgs key = Some v \<longrightarrow>
         (\<exists>j < length (SubexpNames (Pattern route)).
            SubexpNames (Pattern route) ! j = key \<and> v = matches ! j)) \<and>
      Width (Dimensions options) =
        ParseUint sc (case pathArgs ''w'' of Some v \<Rightarrow> v | None \<Rightarrow> FormValue r ''w'') 10 32 \<and>
      Height (Dimensions options) =
        ParseUint sc (case pathArgs ''h'' of Some v \<Rightarrow> v | None \<Rightarrow> FormValue r ''h'') 10 32 \<and>
      BlurRadius options =
        ParseFloat sc
          (case pathArgs ''blur'' of Some v \<Rightarrow> v | None \<Rightarrow> FormValue r ''blur'') 64 \<and>
      GrayScale options =
        ParseBool sc
          (case pathArgs ''grayscale'' of Some v \<Rightarrow> v | None \<Rightarrow> FormValue r ''grayscale'') \<and>
      (\<forall>r'. URL_Path r' = URL_Path r \<and>
            (\<forall>key. key \<notin> set (SubexpNames (Pattern route)) \<longrightarrow>
                   FormValue r' key = FormValue r key) \<longrightarrow>
            SourceAndProcessorOptionsForRequest sc route r' = Inr (source, options)) \<and>
      (''w'' \<notin> set (SubexpNames (Pattern route)) \<and> FormValue r ''w'' = [] \<and>
       ParseUint sc [] 10 32 = 0 \<longrightarrow> Width (Dimensions options) = 0) \<and>
      (''h'' \<notin> set (SubexpNames (Pattern route)) \<and> FormValue r ''h'' = [] \<and>
       ParseUint sc [] 10 32 = 0 \<longrightarrow> Height (Dimensions options) = 0) \<and>
      (''blur'' \<notin> set (SubexpNames (Pattern route)) \<and> FormValue r ''blur'' = [] \<and>
       ParseFloat sc [] 64 = Fin 0 \<longrightarrow> BlurRadius options = Fin 0) \<and>
      (''grayscale'' \<notin> set (SubexpNames (Pattern route)) \<and> FormValue r ''grayscale'' = [] \<and>
       \<not> ParseBool sc [] \<longrightarrow> \<not> GrayScale options) \<and>
      (pathArgs ''w'' = Some ''100'' \<and> ParseUint sc ''100'' 10 32 = 100 \<longrightarrow>
         Width (Dimensions options) = 100)"
proof -
  let ?names = "SubexpNames (Pattern route)"
  from NamedSubexpMap_result [OF assms] obtain pathArgs where
    map: "NamedSubexpMap (Pattern route) (URL_Path r) = Inr pathArgs"
    and dom: "\<forall>key. pathArgs key \<noteq> None \<longleftrightarrow> key \<in> set ?names \<and> key \<noteq> []"
    and val: "\<forall>key v. pathArgs key = Some v \<longrightarrow>
       (\<exists>j < length ?names. ?names ! j = key \<and> v = matches ! j)"
    by blast
  define source where
    "source = \<lparr>Path = (case pathArgs ''image_path'' of Some v \<Rightarrow> v | None \<Rightarrow> [])\<rparr>"
  define options where
    "options = \<lparr>Dimensions =
         \<lparr>Width = ParseUint sc (pathOrFormValue pathArgs r ''w'') 10 32,
          Height = ParseUint sc (pathOrFormValue pathArgs r ''h'') 10 32\<rparr>,
       BlurRadius = ParseFloat sc (pathOrFormValue pathArgs r ''blur'') 64,
       GrayScale = ParseBool sc (pathOrFormValue pathArgs r ''grayscale''),
       Crop = None\<rparr>"
  have res: "SourceAndProcessorOptionsForRequest sc route r = Inr (source, options)"
    by (simp add: SourceAndProcessorOptionsForRequest_def map Let_def source_def options_def)
  have w: "Width (Dimensions options) =
      ParseUint sc (case pathArgs ''w'' of Some v \<Rightarrow> v | None \<Rightarrow> FormValue r ''w'') 10 32"
    and h: "Height (Dimensions options) =
      ParseUint sc (case pathArgs ''h'' of Some v \<Rightarrow> v | None \<Rightarrow> FormValue r ''h'') 10 32"
    and b: "BlurRadius options =
      ParseFloat sc (case pathArgs ''blur'' of Some v \<Rightarrow> v | None \<Rightarrow> FormValue r ''blur'') 64"
    and g: "GrayScale options =
      ParseBool sc
        (case pathArgs ''grayscale'' of Some v \<Rightarrow> v | None \<Rightarrow> FormValue r ''grayscale'')"
    by (simp_all add: options_def pathOrFormValue_def)
  have same: "SourceAndProcessorOptionsForRequest sc route r' = Inr (source, options)"
    if "URL_Path r' = URL_Path r \<and>
        (\<forall>key. key \<notin> set ?names \<longrightarrow> FormValue r' key = FormValue r key)" for r'
  proof -
    from that have form: "\<forall>key. key \<notin> set ?names \<longrightarrow> FormValue r' key = FormValue r key"
      and path: "URL_Path r' = URL_Path r" by simp_all
    have "pathOrFormValue pathArgs r' k = pathOrFormValue pathArgs r k" if "k \<noteq> []" for k
      using dom form that by (rule pathOrFormValue_same)
    then show ?thesis
      by (simp add: SourceAndProcessorOptionsForRequest_def path map Let_def source_def
          options_def)
  qed
  have none: "pathArgs k = None" if "k \<notin> set ?names" for k
  proof (rule ccontr)
    assume "pathArgs k \<noteq> None"
    with dom have "k \<in> set ?names \<and> k \<noteq> []" by blast
    with that show False by simp
  qed
  have zw: "Width (Dimensions options) = 0"
    if "''w'' \<notin> set ?names \<and> FormValue r ''w'' = [] \<and> ParseUint sc [] 10 32 = 0"
    using that none [of "''w''"] w by simp
  have zh: "Height (Dimensions options) = 0"
    if "''h'' \<notin> set ?names \<and> FormValue r ''h'' = [] \<and> ParseUint sc [] 10 32 = 0"
    using that none [of "''h''"] h by simp
  have zb: "BlurRadius options = Fin 0"
    if "''blur'' \<notin> set ?names \<and> FormValue r ''blur'' = [] \<and> ParseFloat sc [] 64 = Fin 0"
    using that none [of "''blur''"] b by simp
  have zg: "\<not> GrayScale options"
    if "''grayscale'' \<notin> set ?names \<and> FormValue r ''grayscale'' = [] \<and> \<not> ParseBool sc []"
    using that none [of "''grayscale''"] g by simp
  have ex: "Width (Dimensions options) = 100"
    if "pathArgs ''w'' = Some ''100'' \<and> ParseUint sc ''100'' 10 32 = 100"
    using that w by simp
  have all_same: "\<forall>r'. URL_Path r' = URL_Path r \<and>
      (\<forall>key. key \<notin> set ?names \<longrightarrow> FormValue r' key = FormValue r key) \<longrightarrow>
      SourceAndProcessorOptionsForRequest sc route r' = Inr (source, options)"
    using same by (intro allI impI)
  show ?thesis
    apply (rule exI [of _ pathArgs])
    apply (rule exI [of _ source])
    apply (rule exI [of _ options])
    apply (intro conjI)
                 apply (rule map)
                apply (rule res)
               apply (rule dom)
              apply (rule val)
             apply (rule w)
            apply (rule h)
           apply (rule b)
          apply (rule g)
         apply (rule all_same)
        apply (rule impI, erule zw)
       apply (rule impI, erule zh)
      apply (rule impI, erule zb)
     apply (rule impI, erule zg)
    apply (rule impI, erule ex)
    done
qed

lemma example_resolution:
  "SourceAndProcessorOptionsForRequest example_strconv example_route example_request =
     Inr (\<lparr>Path = ''/a.jpg''\<rparr>,
          \<lparr>Dimensions = \<lparr>Width = 100, Height = 0\<rparr>, BlurRadius = Fin 0,
           GrayScale = False, Crop = None\<rparr>)"
proof -
  have "NamedSubexpMap (Pattern example_route) (URL_Path example_request) =
      Inr [''image_path'' \<mapsto> ''/a.jpg'', ''w'' \<mapsto> ''100'']"
    by (simp add: NamedSubexpMap_def example_route_def example_request_def)
  then show ?thesis
    by (simp add: SourceAndProcessorOptionsForRequest_def Let_def pathOrFormValue_def
        example_strconv_def example_request_def)
qed

theorem SourceAndProcessorOptionsForRequest_precedence_witness:
  "FindAllStringSubmatch (Pattern example_route) (URL_Path example_request) =
     [''/users/100/a.jpg'', ''/a.jpg'', ''100''] # [] \<and>
   length (SubexpNames (Pattern example_route))
     \<le> length [''/users/100/a.jpg'', ''/a.jpg'', ''100''] \<and>
   FormValue example_request ''w'' = ''50'' \<and>
   ParseUint example_strconv ''50'' 10 32 = 50 \<and>
   (\<exists>source options.
      SourceAndProcessorOptionsForRequest example_strconv example_route example_request =
        Inr (source, options) \<and>
      Width (Dimensions options) = 100)"
proof -
  let ?matches = "[''/users/100/a.jpg'', ''/a.jpg'', ''100'']"
  have m: "FindAllStringSubmatch (Pattern example_route) (URL_Path example_request) =
      ?matches # []"
    by (simp add: example_route_def example_request_def)
  have l: "length (SubexpNames (Pattern example_route)) \<le> length ?matches"
    by (simp add: example_route_def)
  have q: "FormValue example_request ''w'' = ''50''"
    "ParseUint example_strconv ''50'' 10 32 = 50"
    by (simp_all add: example_request_def example_strconv_def)
  have p: "ParseUint example_strconv ''100'' 10 32 = 100"
    by (simp add: example_strconv_def)
  from SourceAndProcessorOptionsForRequest_precedence [OF m l, of example_strconv]
  obtain pathArgs source options where
    res: "SourceAndProcessorOptionsForRequest example_strconv example_route example_request =
      Inr (source, options)"
    and dom: "\<forall>key. pathArgs key \<noteq> None \<longleftrightarrow>
      key \<in> set (SubexpNames (Pattern example_route)) \<and> key \<noteq> []"
    and val: "\<forall>key v. pathArgs key = Some v \<longrightarrow>
      (\<exists>j < length (SubexpNames (Pattern example_route)).
         SubexpNames (Pattern example_route) ! j = key \<and> v = ?matches ! j)"
    and ex: "pathArgs ''w'' = Some ''100'' \<and> ParseUint example_strconv ''100'' 10 32 = 100 \<longrightarrow>
      Width (Dimensions options) = 100"
    by (elim exE conjE) (rule that)
  have "''w'' \<in> set (SubexpNames (Pattern example_route)) \<and> ''w'' \<noteq> []"
    by (simp add: example_route_def)
  with dom obtain v where v: "pathArgs ''w'' = Some v" by blast
  with val obtain j where j: "j < length (SubexpNames (Pattern example_route))"
    "SubexpNames (Pattern example_route) ! j = ''w''" "v = ?matches ! j"
    by blast
  from j(1) have "j = 0 \<or> j = 1 \<or> j = 2"
    by (auto simp: example_route_def)
  with j(2,3) have "v = ''100''"
    by (auto simp: example_route_def)
  with v ex p have "Width (Dimensions options) = 100" by simp
  with res m l q show ?thesis by blast
qed

text \<open>
  C10. The options the resolver returns never carry a crop anchor: whatever the path
  captures and the query parameters are, \<^verbatim>\<open>Crop\<close> is \<^verbatim>\<open>nil\<close>, so the crop stage, run on
  options that come from the resolver, leaves the wand alone and reports no modification.
\<close>

theorem SourceAndProcessorOptionsForRequest_no_crop:
  assumes "SourceAndProcessorOptionsForRequest sc route r = Inr (source, options)"
  shows "Crop options = None \<and> cropWand pf lib wand options = (None, False, wand)"
proof -
  have "Crop options = None"
    using assms
    by (auto simp: SourceAndProcessorOptionsForRequest_def Let_def split: sum.splits)
  then show ?thesis by (simp add: cropWand_def)
qed

theorem SourceAndProcessorOptionsForRequest_no_crop_witness:
  "\<exists>source options.
     SourceAndProcessorOptionsForRequest example_strconv example_route example_request =
       Inr (source, options) \<and>
     Crop options = None \<and>
     cropWand example_platform example_imagick example_image_wand options =
       (None, False, example_image_wand)"
  using SourceAndProcessorOptionsForRequest_no_crop [OF example_resolution,
      of example_platform example_imagick example_image_wand]
    example_resolution
  by blast

end
